theory Spec2Isabelle
  imports Main "HOL-Library.AList"
begin

section \<open>The WebSocket hub: data model\<close>

text \<open>
  The hub of package \<open>websocket\<close> keeps a registry of connected clients and an index of
  rooms, and fans messages out to the clients' outbound channels. The Go code shares
  \<open>*Client\<close> pointers between the registry, the room index and the callers, and mutates
  the clients through them, so the model has an explicit store of client objects: an
  address stands for a \<open>*Client\<close>, and two addresses may hold clients with the same ID.

  Go maps become association lists where the code ranges over them (the registry, a
  room's members, a client's rooms) and a partial function where it only looks keys up
  (the room index). The maps \<open>map[*Client]bool\<close> and \<open>map[string]bool\<close> only ever
  store \<open>true\<close> and are only tested for the presence of a key, so they are the lists of
  their keys. Go leaves the order of \<open>range\<close> over a map open; the model ranges in list
  order.
\<close>

type_synonym addr = nat

type_synonym frame = string

text \<open>The payload \<open>Data interface{}\<close>: any JSON value.\<close>

datatype jvalue =
    JNull
  | JBool bool
  | JNumber int
  | JString string
  | JArray "jvalue list"
  | JObject "(string \<times> jvalue) list"

text \<open>\<open>type Message struct\<close>; \<open>time.Time\<close> is an integer instant.\<close>

record message =
  Type :: string
  Room :: string
  UserID :: string
  Data :: jvalue
  Timestamp :: int

text \<open>
  A buffered Go channel: the queued elements, the capacity given to \<open>make\<close>, and
  whether \<open>close\<close> has been called on it.
\<close>

record 'a chan =
  buf :: "'a list"
  cap :: nat
  closed :: bool

text \<open>
  \<open>type Client struct\<close>, without the socket \<open>Conn\<close> and the back pointer \<open>Hub\<close>.
\<close>

record client =
  ID :: string
  UserID :: string
  TeamID :: string
  Send :: "frame chan"
  Rooms :: "string list"

datatype level = Debug | Info | Warn | Error

text \<open>
  \<open>type Hub struct\<close> together with the store of client objects its pointers refer to.
  The unbuffered channels \<open>register\<close> and \<open>unregister\<close> carry the requests that
  \<open>Run\<close> serves; they are the events of \<open>Run_step\<close> below. The logger is the list of
  lines written so far.
\<close>

record hub =
  clients :: "(string \<times> addr) list"
  rooms :: "string \<rightharpoonup> addr list"
  broadcast :: "message chan"
  logger :: "(level \<times> string) list"
  store :: "addr \<Rightarrow> client"

text \<open>
  What can stop a Go statement from completing: a send on a full channel with nobody
  receiving blocks, and a send on, or a second \<open>close\<close> of, a closed channel panics.
\<close>

datatype fault = Blocked | Panic

section \<open>Channels\<close>

text \<open>\<open>ch <- x\<close>: the blocking send.\<close>

definition chan_send :: "'a chan \<Rightarrow> 'a \<Rightarrow> fault + 'a chan" where
  "chan_send ch x =
     (if closed ch then Inl Panic
      else if length (buf ch) < cap ch then Inr (ch\<lparr>buf := buf ch @ [x]\<rparr>)
      else Inl Blocked)"

text \<open>
  \<open>select { case ch <- x: default: }\<close>: the send that gives up instead of blocking.
  \<open>Inr None\<close> is the \<open>default\<close> branch.
\<close>

definition chan_try_send :: "'a chan \<Rightarrow> 'a \<Rightarrow> fault + 'a chan option" where
  "chan_try_send ch x =
     (if closed ch then Inl Panic
      else if length (buf ch) < cap ch then Inr (Some (ch\<lparr>buf := buf ch @ [x]\<rparr>))
      else Inr None)"

text \<open>\<open>close(ch)\<close>.\<close>

definition chan_close :: "'a chan \<Rightarrow> fault + 'a chan" where
  "chan_close ch = (if closed ch then Inl Panic else Inr (ch\<lparr>closed := True\<rparr>))"

section \<open>The hub\<close>

definition logf :: "level \<Rightarrow> string \<Rightarrow> hub \<Rightarrow> hub" where
  "logf lvl line s = s\<lparr>logger := logger s @ [(lvl, line)]\<rparr>"

text \<open>\<open>NewHub\<close>, over a given store of client objects.\<close>

definition NewHub :: "(addr \<Rightarrow> client) \<Rightarrow> hub" where
  "NewHub st =
     \<lparr>clients = [], rooms = Map.empty,
      broadcast = \<lparr>buf = [], cap = 256, closed = False\<rparr>,
      logger = [], store = st\<rparr>"

text \<open>The members of a room; a room without an entry in the index has none.\<close>

definition members :: "hub \<Rightarrow> string \<Rightarrow> addr list" where
  "members s room = (case rooms s room of None \<Rightarrow> [] | Some ms \<Rightarrow> ms)"

definition joinRoom :: "hub \<Rightarrow> addr \<Rightarrow> string \<Rightarrow> hub" where
  "joinRoom s a room =
     (let ms = (case rooms s room of None \<Rightarrow> [] | Some ms \<Rightarrow> ms);
          c = store s a;
          s1 = s\<lparr>rooms := (rooms s)(room \<mapsto> List.insert a ms),
                 store := (store s)(a := c\<lparr>Rooms := List.insert room (Rooms c)\<rparr>)\<rparr>
      in logf Debug (''Client '' @ ID c @ '' joined room '' @ room) s1)"

definition leaveRoom :: "hub \<Rightarrow> addr \<Rightarrow> string \<Rightarrow> hub" where
  "leaveRoom s a room =
     (let s1 = (case rooms s room of
                  None \<Rightarrow> s
                | Some ms \<Rightarrow>
                    (if removeAll a ms = [] then s\<lparr>rooms := (rooms s)(room := None)\<rparr>
                     else s\<lparr>rooms := (rooms s)(room \<mapsto> removeAll a ms)\<rparr>));
          c = store s1 a;
          s2 = s1\<lparr>store := (store s1)(a := c\<lparr>Rooms := removeAll room (Rooms c)\<rparr>)\<rparr>
      in logf Debug (''Client '' @ ID c @ '' left room '' @ room) s2)"

text \<open>The envelope that \<open>sendPresenceUpdate\<close> builds; \<open>now\<close> is \<open>time.Now()\<close>.\<close>

definition presence_message :: "int \<Rightarrow> client \<Rightarrow> bool \<Rightarrow> message" where
  "presence_message now c online =
     (let status = (if online then ''online'' else ''offline'');
          message = \<lparr>Type = ''presence'', Room = [], message.UserID = client.UserID c,
                     Data = JObject [(''status'', JString status)], Timestamp = now\<rparr>
      in if TeamID c \<noteq> [] then message\<lparr>Room := ''team:'' @ TeamID c\<rparr> else message)"

text \<open>\<open>h.broadcast <- message\<close>.\<close>

definition to_broadcast :: "hub \<Rightarrow> message \<Rightarrow> fault + hub" where
  "to_broadcast s m =
     (case chan_send (broadcast s) m of
        Inl e \<Rightarrow> Inl e
      | Inr ch \<Rightarrow> Inr (s\<lparr>broadcast := ch\<rparr>))"

definition sendPresenceUpdate :: "int \<Rightarrow> hub \<Rightarrow> addr \<Rightarrow> bool \<Rightarrow> fault + hub" where
  "sendPresenceUpdate now s a online =
     to_broadcast s (presence_message now (store s a) online)"

definition registerClient :: "int \<Rightarrow> hub \<Rightarrow> addr \<Rightarrow> fault + hub" where
  "registerClient now s a =
     (let c = store s a;
          s1 = s\<lparr>clients := AList.update (ID c) a (clients s)\<rparr>;
          s2 = logf Info
                 (''Client registered: '' @ ID c @ '' (User: '' @ client.UserID c @ '')'') s1;
          s3 = joinRoom s2 a ''global'';
          s4 = (if TeamID c \<noteq> [] then joinRoom s3 a (''team:'' @ TeamID c) else s3)
      in sendPresenceUpdate now s4 a True)"

text \<open>
  The loop \<open>for room := range client.Rooms\<close> of \<open>unregisterClient\<close>. Each round
  deletes only its own key from the map it ranges over, so the loop visits the keys the
  map had when it started.
\<close>

definition leave_all :: "hub \<Rightarrow> addr \<Rightarrow> hub" where
  "leave_all s a = fold (\<lambda>room s'. leaveRoom s' a room) (Rooms (store s a)) s"

definition unregisterClient :: "int \<Rightarrow> hub \<Rightarrow> addr \<Rightarrow> fault + hub" where
  "unregisterClient now s a =
     (let c = store s a in
      case map_of (clients s) (ID c) of
        None \<Rightarrow> Inr s
      | Some _ \<Rightarrow>
          (let s1 = s\<lparr>clients := AList.delete (ID c) (clients s)\<rparr> in
           case chan_close (Send c) of
             Inl e \<Rightarrow> Inl e
           | Inr ch \<Rightarrow>
               (let s2 = s1\<lparr>store := (store s1)(a := c\<lparr>Send := ch\<rparr>)\<rparr>;
                    s3 = leave_all s2 a;
                    s4 = logf Info
                           (''Client unregistered: '' @ ID c @ '' (User: '' @
                            client.UserID c @ '')'') s3
                in sendPresenceUpdate now s4 a False)))"

text \<open>
  The delivery loop that \<open>broadcastMessage\<close> and \<open>SendToUser\<close> share: one
  non-blocking send per recipient, and a warning for each recipient whose channel is
  full.
\<close>

fun deliver :: "frame \<Rightarrow> addr list \<Rightarrow> hub \<Rightarrow> fault + hub" where
  "deliver d [] s = Inr s"
| "deliver d (a # as) s =
     (case chan_try_send (Send (store s a)) d of
        Inl e \<Rightarrow> Inl e
      | Inr None \<Rightarrow>
          deliver d as
            (logf Warn (''Client '' @ ID (store s a) @
                        '' send channel is full, dropping message'') s)
      | Inr (Some ch) \<Rightarrow>
          deliver d as (s\<lparr>store := (store s)(a := (store s a)\<lparr>Send := ch\<rparr>)\<rparr>))"

text \<open>
  \<open>json.Marshal\<close> is a parameter: \<open>marshal m\<close> is the encoding of \<open>m\<close>, or \<open>None\<close>
  when the encoder returns an error.
\<close>

definition broadcastMessage :: "(message \<Rightarrow> frame option) \<Rightarrow> hub \<Rightarrow> message \<Rightarrow> fault + hub" where
  "broadcastMessage marshal s m =
     (case marshal m of
        None \<Rightarrow> Inr (logf Error ''Failed to marshal message'' s)
      | Some d \<Rightarrow>
          (if Room m \<noteq> [] then
             (case rooms s (Room m) of
                Some ms \<Rightarrow> deliver d ms s
              | None \<Rightarrow> Inr s)
           else deliver d (map snd (clients s)) s))"

text \<open>
  \<open>SendToUser\<close>. The loop skips the clients whose user ID differs; the test reads only
  \<open>UserID\<close>, which no delivery changes, so the recipients are filtered first.
\<close>

definition SendToUser :: "(message \<Rightarrow> frame option) \<Rightarrow> hub \<Rightarrow> string \<Rightarrow> message \<Rightarrow> fault + hub" where
  "SendToUser marshal s userID m =
     (case marshal m of
        None \<Rightarrow> Inr (logf Error ''Failed to marshal message'' s)
      | Some d \<Rightarrow>
          deliver d (filter (\<lambda>a. client.UserID (store s a) = userID) (map snd (clients s))) s)"

definition SendToTeam :: "hub \<Rightarrow> string \<Rightarrow> message \<Rightarrow> fault + hub" where
  "SendToTeam s teamID m = to_broadcast s (m\<lparr>Room := ''team:'' @ teamID\<rparr>)"

text \<open>
  One round of \<open>Run\<close>: the \<open>select\<close> case that fires is the event. The case
  \<open>message := <-h.broadcast\<close> cannot fire while the channel is empty.
\<close>

datatype event = Register_ev addr | Unregister_ev addr | Broadcast_ev

definition Run_step :: "(message \<Rightarrow> frame option) \<Rightarrow> int \<Rightarrow> hub \<Rightarrow> event \<Rightarrow> fault + hub" where
  "Run_step marshal now s ev =
     (case ev of
        Register_ev a \<Rightarrow> registerClient now s a
      | Unregister_ev a \<Rightarrow> unregisterClient now s a
      | Broadcast_ev \<Rightarrow>
          (case buf (broadcast s) of
             [] \<Rightarrow> Inl Blocked
           | m # ms \<Rightarrow>
               broadcastMessage marshal (s\<lparr>broadcast := (broadcast s)\<lparr>buf := ms\<rparr>\<rparr>) m))"

text \<open>
  The loop of \<open>Run\<close> over the requests that arrive, each with the time at which it is
  served. A panic ends the process. \<open>Run\<close> is the only receiver of the broadcast
  channel, so when a send to it blocks inside a round, no later round is reached.
\<close>

fun Run :: "(message \<Rightarrow> frame option) \<Rightarrow> hub \<Rightarrow> (int \<times> event) list \<Rightarrow> fault + hub" where
  "Run marshal s [] = Inr s"
| "Run marshal s ((now, ev) # evs) =
     (case Run_step marshal now s ev of
        Inl e \<Rightarrow> Inl e
      | Inr s' \<Rightarrow> Run marshal s' evs)"

section \<open>The client's read pump\<close>

definition handleChatMessage :: "hub \<Rightarrow> addr \<Rightarrow> message \<Rightarrow> fault + hub" where
  "handleChatMessage s a msg =
     to_broadcast s
       (if Room msg = [] then msg\<lparr>Room := ''team:'' @ TeamID (store s a)\<rparr> else msg)"

definition handleTaskUpdate :: "hub \<Rightarrow> addr \<Rightarrow> message \<Rightarrow> fault + hub" where
  "handleTaskUpdate s a msg = to_broadcast s (msg\<lparr>Room := ''team:'' @ TeamID (store s a)\<rparr>)"

definition handleTypingIndicator :: "hub \<Rightarrow> addr \<Rightarrow> message \<Rightarrow> fault + hub" where
  "handleTypingIndicator s a msg =
     to_broadcast s (msg\<lparr>Room := ''team:'' @ TeamID (store s a)\<rparr>)"

definition handleMessage :: "hub \<Rightarrow> addr \<Rightarrow> message \<Rightarrow> fault + hub" where
  "handleMessage s a msg =
     (if Type msg = ''chat'' then handleChatMessage s a msg
      else if Type msg = ''task_update'' then handleTaskUpdate s a msg
      else if Type msg = ''typing'' then handleTypingIndicator s a msg
      else Inr (logf Warn (''Unknown message type: '' @ Type msg) s))"

text \<open>
  The body of the loop of \<open>ReadPump\<close> for one frame read from the socket.
  \<open>json.Unmarshal\<close> is a parameter: \<open>unmarshal f\<close> is the decoded message, or \<open>None\<close>
  when the decoder returns an error.
\<close>

definition ReadPump_frame ::
  "(frame \<Rightarrow> message option) \<Rightarrow> int \<Rightarrow> hub \<Rightarrow> addr \<Rightarrow> frame \<Rightarrow> fault + hub" where
  "ReadPump_frame unmarshal now s a f =
     (case unmarshal f of
        None \<Rightarrow> Inr (logf Error ''Failed to unmarshal message'' s)
      | Some msg \<Rightarrow>
          handleMessage s a
            (msg\<lparr>message.UserID := client.UserID (store s a), Timestamp := now\<rparr>))"

text \<open>
  The loop of \<open>ReadPump\<close> over the frames read from the socket, each with the time at
  which it is read. The send to the broadcast channel is a blocking one: the pump gets no
  further while the channel is full.
\<close>

fun ReadPump ::
  "(frame \<Rightarrow> message option) \<Rightarrow> hub \<Rightarrow> addr \<Rightarrow> (int \<times> frame) list \<Rightarrow> fault + hub" where
  "ReadPump unmarshal s a [] = Inr s"
| "ReadPump unmarshal s a ((now, f) # fs) =
     (case ReadPump_frame unmarshal now s a f of
        Inl e \<Rightarrow> Inl e
      | Inr s' \<Rightarrow> ReadPump unmarshal s' a fs)"

text \<open>\<open>Client.JoinRoom\<close> and \<open>Client.LeaveRoom\<close> take the lock and call the hub.\<close>

definition JoinRoom :: "hub \<Rightarrow> addr \<Rightarrow> string \<Rightarrow> hub" where
  "JoinRoom s a room = joinRoom s a room"

definition LeaveRoom :: "hub \<Rightarrow> addr \<Rightarrow> string \<Rightarrow> hub" where
  "LeaveRoom s a room = leaveRoom s a room"

section \<open>Predicates used in the statements\<close>

text \<open>
  The registry is keyed by connection ID, and \<open>unregisterClient\<close> tests the key: a
  client counts as registered when its ID has an entry.
\<close>

definition registered :: "hub \<Rightarrow> addr \<Rightarrow> bool" where
  "registered s a = (map_of (clients s) (ID (store s a)) \<noteq> None)"

text \<open>
  The room index and the clients' room sets agree: for every client object and every
  room name, the client is a member of the room exactly when the room is in the client's
  room set.
\<close>

definition rooms_agree :: "hub \<Rightarrow> bool" where
  "rooms_agree s = (\<forall>a room. a \<in> set (members s room) \<longleftrightarrow> room \<in> set (Rooms (store s a)))"

text \<open>The same for the clients in the registry and the rooms in the index only.\<close>

definition registered_rooms_agree :: "hub \<Rightarrow> bool" where
  "registered_rooms_agree s =
     (\<forall>a room. a \<in> snd ` set (clients s) \<longrightarrow> room \<in> dom (rooms s) \<longrightarrow>
        (a \<in> set (members s room) \<longleftrightarrow> room \<in> set (Rooms (store s a))))"

text \<open>A channel with a free slot, and a client with one more frame queued.\<close>

definition has_room :: "'a chan \<Rightarrow> bool" where
  "has_room ch = (length (buf ch) < cap ch)"

definition enqueued :: "frame \<Rightarrow> client \<Rightarrow> client" where
  "enqueued d c = c\<lparr>Send := (Send c)\<lparr>buf := buf (Send c) @ [d]\<rparr>\<rparr>"

text \<open>The hub with one more message on its broadcast channel.\<close>

definition queued :: "hub \<Rightarrow> message \<Rightarrow> hub" where
  "queued s m = s\<lparr>broadcast := (broadcast s)\<lparr>buf := buf (broadcast s) @ [m]\<rparr>\<rparr>"

text \<open>The line that the delivery loop logs for a client whose channel is full.\<close>

definition full_warning :: "client \<Rightarrow> level \<times> string" where
  "full_warning c = (Warn, ''Client '' @ ID c @ '' send channel is full, dropping message'')"

text \<open>The clients that \<open>broadcastMessage\<close> ranges over for a message.\<close>

definition recipients :: "hub \<Rightarrow> message \<Rightarrow> addr list" where
  "recipients s m = (if Room m \<noteq> [] then members s (Room m) else map snd (clients s))"

text \<open>
  \<open>s'\<close> differs from \<open>s\<close> at most in the frames queued on the clients' channels and in
  the log.
\<close>

definition only_queues :: "hub \<Rightarrow> hub \<Rightarrow> bool" where
  "only_queues s s' =
     (clients s' = clients s \<and> rooms s' = rooms s \<and> broadcast s' = broadcast s \<and>
      (\<forall>a. \<exists>q. store s' a = (store s a)\<lparr>Send := (Send (store s a))\<lparr>buf := q\<rparr>\<rparr>))"

section \<open>Example values\<close>

text \<open>
  The client that \<open>websocketHandler\<close> builds for a new connection: a channel of
  capacity 256 and an empty room set.
\<close>

definition new_client :: "string \<Rightarrow> string \<Rightarrow> string \<Rightarrow> client" where
  "new_client i u t =
     \<lparr>ID = i, client.UserID = u, TeamID = t,
      Send = \<lparr>buf = [], cap = 256, closed = False\<rparr>, Rooms = []\<rparr>"

text \<open>
  A store with a client without a team at address 0, two clients of team T1 at 2 and
  3, and clients of team T2 elsewhere.
\<close>

definition ex_store :: "addr \<Rightarrow> client" where
  "ex_store a =
     (if a = 0 then new_client ''c0'' ''u0'' []
      else if a = 2 then new_client ''c2'' ''u2'' ''T1''
      else if a = 3 then new_client ''c3'' ''u3'' ''T1''
      else new_client ''c4'' ''u4'' ''T2'')"

text \<open>A stand-in for the encoder: the type, the room and the sender, separated by bars.\<close>

definition ex_marshal :: "message \<Rightarrow> frame option" where
  "ex_marshal m = Some (Type m @ ''|'' @ Room m @ ''|'' @ message.UserID m)"

definition ex_msg :: "string \<Rightarrow> string \<Rightarrow> string \<Rightarrow> int \<Rightarrow> message" where
  "ex_msg ty room user t =
     \<lparr>Type = ty, Room = room, message.UserID = user, Data = JString ''hi'', Timestamp = t\<rparr>"

text \<open>
  A stand-in for the decoder: two frames that differ only in the sender and the time
  they claim.
\<close>

definition ex_unmarshal :: "frame \<Rightarrow> message option" where
  "ex_unmarshal f =
     (if f = ''A'' then Some (ex_msg ''chat'' [] ''mallory'' 1)
      else if f = ''B'' then Some (ex_msg ''chat'' [] ''u2'' 2)
      else None)"

text \<open>
  The hub after the clients at 2, 3 and 0 have connected, in this order, and every
  presence message has been delivered.
\<close>

definition ex_events :: "(int \<times> event) list" where
  "ex_events =
     [(1, Register_ev 2), (1, Broadcast_ev), (2, Register_ev 3), (2, Broadcast_ev),
      (3, Register_ev 0), (3, Broadcast_ev)]"

definition ex_hub :: hub where
  "ex_hub =
     (case Run ex_marshal (NewHub ex_store) ex_events of
        Inr s \<Rightarrow> s
      | Inl _ \<Rightarrow> NewHub ex_store)"

text \<open>The same hub when the client at 3 has stopped reading: its channel is full.\<close>

definition ex_hub_full :: hub where
  "ex_hub_full =
     ex_hub\<lparr>store := (store ex_hub)
        (3 := (store ex_hub 3)\<lparr>Send := (Send (store ex_hub 3))\<lparr>buf := replicate 256 ''x''\<rparr>\<rparr>)\<rparr>"

text \<open>
  The example hub after the read pump of the client at 2 has sent 256 chat messages that
  \<open>Run\<close> has not served yet.
\<close>

definition ex_hub_flooded :: hub where
  "ex_hub_flooded =
     ex_hub\<lparr>broadcast :=
       (broadcast ex_hub)\<lparr>buf := replicate 256 (ex_msg ''chat'' ''team:T1'' ''u2'' 7)\<rparr>\<rparr>"

text \<open>
  A store of clients without a team, and the hub after the clients at 0 and 2 have
  connected and every presence message has been delivered.
\<close>

definition ex_guest_store :: "addr \<Rightarrow> client" where
  "ex_guest_store a =
     (if a = 0 then new_client ''g0'' ''v0'' [] else new_client ''g2'' ''v2'' [])"

definition ex_guest_events :: "(int \<times> event) list" where
  "ex_guest_events =
     [(1, Register_ev 0), (1, Broadcast_ev), (2, Register_ev 2), (2, Broadcast_ev)]"

definition ex_guests :: hub where
  "ex_guests =
     (case Run ex_marshal (NewHub ex_guest_store) ex_guest_events of
        Inr s \<Rightarrow> s
      | Inl _ \<Rightarrow> NewHub ex_guest_store)"

text \<open>What a client has queued, and what the broadcast channel holds, after a step.\<close>

definition inbox :: "fault + hub \<Rightarrow> addr \<Rightarrow> fault + frame list" where
  "inbox r a = (case r of Inl e \<Rightarrow> Inl e | Inr s \<Rightarrow> Inr (buf (Send (store s a))))"

definition outbox :: "fault + hub \<Rightarrow> fault + message list" where
  "outbox r = (case r of Inl e \<Rightarrow> Inl e | Inr s \<Rightarrow> Inr (buf (broadcast s)))"

section \<open>The broadcast channel\<close>

lemma to_broadcast_Inr: "to_broadcast s m = Inr s' \<Longrightarrow> s' = queued s m"
  by (auto simp: to_broadcast_def chan_send_def queued_def split: if_splits)

lemma to_broadcast_free:
  "\<not> closed (broadcast s) \<Longrightarrow> has_room (broadcast s) \<Longrightarrow> to_broadcast s m = Inr (queued s m)"
  by (simp add: to_broadcast_def chan_send_def queued_def has_room_def)

lemma to_broadcast_full:
  "\<not> closed (broadcast s) \<Longrightarrow> \<not> has_room (broadcast s) \<Longrightarrow> to_broadcast s m = Inl Blocked"
  by (simp add: to_broadcast_def chan_send_def has_room_def)

section \<open>The delivery loop\<close>

lemma only_queues_refl: "only_queues s s"
  unfolding only_queues_def
proof (intro conjI allI)
  fix a
  have "store s a = (store s a)\<lparr>Send := (Send (store s a))\<lparr>buf := buf (Send (store s a))\<rparr>\<rparr>"
    by simp
  then show "\<exists>q. store s a = (store s a)\<lparr>Send := (Send (store s a))\<lparr>buf := q\<rparr>\<rparr>" ..
qed simp_all

lemma only_queues_trans:
  assumes "only_queues s t" and "only_queues t u"
  shows "only_queues s u"
  unfolding only_queues_def
proof (intro conjI allI)
  fix a
  from assms(1) obtain q1 where q1: "store t a = (store s a)\<lparr>Send := (Send (store s a))\<lparr>buf := q1\<rparr>\<rparr>"
    unfolding only_queues_def by blast
  from assms(2) obtain q2 where q2: "store u a = (store t a)\<lparr>Send := (Send (store t a))\<lparr>buf := q2\<rparr>\<rparr>"
    unfolding only_queues_def by blast
  have "store u a = (store s a)\<lparr>Send := (Send (store s a))\<lparr>buf := q2\<rparr>\<rparr>"
    by (simp add: q1 q2)
  then show "\<exists>q. store u a = (store s a)\<lparr>Send := (Send (store s a))\<lparr>buf := q\<rparr>\<rparr>" ..
qed (use assms in \<open>simp_all add: only_queues_def\<close>)

lemma only_queues_logf: "only_queues s (logf lvl line s)"
  using only_queues_refl[of s] by (simp add: only_queues_def logf_def)

lemma only_queues_enqueue:
  "only_queues s (s\<lparr>store := (store s)(a := (store s a)\<lparr>Send := (Send (store s a))\<lparr>buf := q\<rparr>\<rparr>)\<rparr>)"
  unfolding only_queues_def
proof (intro conjI allI)
  fix b
  show "\<exists>q'. store (s\<lparr>store := (store s)(a := (store s a)\<lparr>Send := (Send (store s a))\<lparr>buf := q\<rparr>\<rparr>)\<rparr>) b
            = (store s b)\<lparr>Send := (Send (store s b))\<lparr>buf := q'\<rparr>\<rparr>"
  proof (cases "b = a")
    case True
    then show ?thesis by auto
  next
    case False
    from False show ?thesis by (intro exI[of _ "buf (Send (store s b))"]) simp
  qed
qed simp_all

lemma chan_try_send_Some:
  "chan_try_send ch d = Inr (Some ch') \<Longrightarrow> ch' = ch\<lparr>buf := buf ch @ [d]\<rparr>"
  by (simp add: chan_try_send_def split: if_splits)

lemma deliver_only_queues: "deliver d as s = Inr s' \<Longrightarrow> only_queues s s'"
proof (induction as arbitrary: s)
  case Nil
  then show ?case by (simp add: only_queues_refl)
next
  case (Cons a as)
  show ?case
  proof (cases "chan_try_send (Send (store s a)) d")
    case (Inl e)
    with Cons.prems show ?thesis by simp
  next
    case (Inr r)
    show ?thesis
    proof (cases r)
      case None
      with Inr Cons.prems
      have "deliver d as (logf Warn (''Client '' @ ID (store s a) @
                        '' send channel is full, dropping message'') s) = Inr s'"
        by simp
      from Cons.IH[OF this] show ?thesis
        using only_queues_logf only_queues_trans by blast
    next
      case (Some ch)
      with Inr Cons.prems
      have "deliver d as (s\<lparr>store := (store s)(a := (store s a)\<lparr>Send := ch\<rparr>)\<rparr>) = Inr s'"
        by simp
      from Cons.IH[OF this] have "only_queues (s\<lparr>store := (store s)(a := (store s a)\<lparr>Send := ch\<rparr>)\<rparr>) s'" .
      moreover have "only_queues s (s\<lparr>store := (store s)(a := (store s a)\<lparr>Send := ch\<rparr>)\<rparr>)"
        using chan_try_send_Some[of "Send (store s a)" d ch] Inr Some only_queues_enqueue by simp
      ultimately show ?thesis using only_queues_trans by blast
    qed
  qed
qed

lemma deliver_not_Blocked: "deliver d as s \<noteq> Inl Blocked"
  by (induction as arbitrary: s)
     (auto simp: chan_try_send_def split: sum.splits option.splits if_splits)

lemma deliver_effect:
  assumes "\<forall>a\<in>set as. \<not> closed (Send (store s a))" and "distinct as"
  shows "\<exists>s'. deliver d as s = Inr s' \<and>
           (\<forall>a. store s' a =
                  (if a \<in> set as \<and> has_room (Send (store s a)) then enqueued d (store s a)
                   else store s a)) \<and>
           logger s' = logger s @
             map (\<lambda>a. full_warning (store s a))
               (filter (\<lambda>a. \<not> has_room (Send (store s a))) as)"
  using assms
proof (induction as arbitrary: s)
  case Nil
  then show ?case by simp
next
  case (Cons a as)
  from Cons.prems have op: "\<not> closed (Send (store s a))" and na: "a \<notin> set as"
    and das: "distinct as" and oas: "\<forall>b\<in>set as. \<not> closed (Send (store s b))"
    by auto
  show ?case
  proof (cases "has_room (Send (store s a))")
    case True
    let ?s1 = "s\<lparr>store := (store s)(a := enqueued d (store s a))\<rparr>"
    have step: "deliver d (a # as) s = deliver d as ?s1"
      using op True by (simp add: chan_try_send_def has_room_def enqueued_def)
    have o1: "\<forall>b\<in>set as. \<not> closed (Send (store ?s1 b))"
      using oas na by auto
    from Cons.IH[OF o1 das] obtain s' where
      d: "deliver d as ?s1 = Inr s'" and
      st: "\<forall>b. store s' b = (if b \<in> set as \<and> has_room (Send (store ?s1 b))
                             then enqueued d (store ?s1 b) else store ?s1 b)" and
      lg: "logger s' = logger ?s1 @ map (\<lambda>b. full_warning (store ?s1 b))
                 (filter (\<lambda>b. \<not> has_room (Send (store ?s1 b))) as)"
      by blast
    have f: "filter (\<lambda>b. \<not> has_room (Send (store ?s1 b))) as =
             filter (\<lambda>b. \<not> has_room (Send (store s b))) as"
      using na by (intro filter_cong) auto
    have m: "map (\<lambda>b. full_warning (store ?s1 b)) (filter (\<lambda>b. \<not> has_room (Send (store s b))) as)
           = map (\<lambda>b. full_warning (store s b)) (filter (\<lambda>b. \<not> has_room (Send (store s b))) as)"
      using na by (intro map_cong) auto
    have "\<forall>b. store s' b = (if b \<in> set (a # as) \<and> has_room (Send (store s b))
                             then enqueued d (store s b) else store s b)"
      using st na True by auto
    moreover have "logger s' = logger s @ map (\<lambda>b. full_warning (store s b))
                 (filter (\<lambda>b. \<not> has_room (Send (store s b))) (a # as))"
      using lg f m True by simp
    ultimately show ?thesis using step d by simp
  next
    case False
    let ?s1 = "logf Warn (''Client '' @ ID (store s a) @
                        '' send channel is full, dropping message'') s"
    have step: "deliver d (a # as) s = deliver d as ?s1"
      using op False by (simp add: chan_try_send_def has_room_def)
    have s1: "store ?s1 = store s" "logger ?s1 = logger s @ [full_warning (store s a)]"
      by (simp_all add: logf_def full_warning_def)
    have o1: "\<forall>b\<in>set as. \<not> closed (Send (store ?s1 b))"
      using oas s1 by simp
    from Cons.IH[OF o1 das] obtain s' where
      d: "deliver d as ?s1 = Inr s'" and
      st: "\<forall>b. store s' b = (if b \<in> set as \<and> has_room (Send (store ?s1 b))
                             then enqueued d (store ?s1 b) else store ?s1 b)" and
      lg: "logger s' = logger ?s1 @ map (\<lambda>b. full_warning (store ?s1 b))
                 (filter (\<lambda>b. \<not> has_room (Send (store ?s1 b))) as)"
      by blast
    have "\<forall>b. store s' b = (if b \<in> set (a # as) \<and> has_room (Send (store s b))
                             then enqueued d (store s b) else store s b)"
      using st s1 False by auto
    moreover have "logger s' = logger s @ map (\<lambda>b. full_warning (store s b))
                 (filter (\<lambda>b. \<not> has_room (Send (store s b))) (a # as))"
      using lg s1 False by simp
    ultimately show ?thesis using step d by simp
  qed
qed

section \<open>Rooms and room sets\<close>

lemma members_joinRoom:
  "set (members (joinRoom s a room) r) =
     (if r = room then insert a (set (members s r)) else set (members s r))"
  by (auto simp: joinRoom_def members_def logf_def Let_def split: option.splits)

lemma Rooms_joinRoom:
  "set (Rooms (store (joinRoom s a room) b)) =
     (if b = a then insert room (set (Rooms (store s b))) else set (Rooms (store s b)))"
  by (simp add: joinRoom_def logf_def Let_def)

lemma removeAll_Nil_D: "removeAll a xs = [] \<Longrightarrow> x \<in> set xs \<Longrightarrow> x = a"
  using set_removeAll[of a xs] by auto

lemma members_leaveRoom:
  "set (members (leaveRoom s a room) r) =
     (if r = room then set (members s r) - {a} else set (members s r))"
  by (auto simp: leaveRoom_def members_def logf_def Let_def dest: removeAll_Nil_D
        split: option.splits)

lemma Rooms_leaveRoom:
  "set (Rooms (store (leaveRoom s a room) b)) =
     (if b = a then set (Rooms (store s b)) - {room} else set (Rooms (store s b)))"
  by (auto simp: leaveRoom_def logf_def Let_def split: option.splits)

lemma rooms_agree_joinRoom: "rooms_agree s \<Longrightarrow> rooms_agree (joinRoom s a room)"
  unfolding rooms_agree_def by (simp add: members_joinRoom Rooms_joinRoom)

lemma rooms_agree_leaveRoom: "rooms_agree s \<Longrightarrow> rooms_agree (leaveRoom s a room)"
  unfolding rooms_agree_def by (simp add: members_leaveRoom Rooms_leaveRoom)

lemma rooms_agree_fold_leave:
  "rooms_agree s \<Longrightarrow> rooms_agree (fold (\<lambda>room s'. leaveRoom s' a room) rs s)"
  by (induction rs arbitrary: s) (simp_all add: rooms_agree_leaveRoom)

lemma rooms_agree_cong:
  "rooms s' = rooms s \<Longrightarrow> (\<And>a. Rooms (store s' a) = Rooms (store s a)) \<Longrightarrow>
   rooms_agree s' = rooms_agree s"
  by (simp add: rooms_agree_def members_def)

lemma rooms_agree_to_broadcast:
  assumes "rooms_agree s" and "to_broadcast s m = Inr s'"
  shows "rooms_agree s'"
proof -
  have "rooms s' = rooms s" and "\<And>a. Rooms (store s' a) = Rooms (store s a)"
    using to_broadcast_Inr[OF assms(2)] by (simp_all add: queued_def)
  then show ?thesis using assms(1) rooms_agree_cong by blast
qed

lemma rooms_agree_registerClient:
  assumes "rooms_agree s" and "registerClient now s a = Inr s'"
  shows "rooms_agree s'"
proof -
  let ?c = "store s a"
  let ?s2 = "logf Info (''Client registered: '' @ ID ?c @ '' (User: '' @ client.UserID ?c @ '')'')
              (s\<lparr>clients := AList.update (ID ?c) a (clients s)\<rparr>)"
  have "rooms_agree ?s2"
    using assms(1) by (simp add: rooms_agree_def members_def logf_def)
  then have "rooms_agree (joinRoom ?s2 a ''global'')"
    by (rule rooms_agree_joinRoom)
  then have "rooms_agree (if TeamID ?c \<noteq> [] then joinRoom (joinRoom ?s2 a ''global'') a (''team:'' @ TeamID ?c)
                          else joinRoom ?s2 a ''global'')"
    by (simp add: rooms_agree_joinRoom)
  with assms(2) show ?thesis
    unfolding registerClient_def sendPresenceUpdate_def Let_def
    by (rule rooms_agree_to_broadcast[rotated])
qed

lemma rooms_agree_unregisterClient:
  assumes "rooms_agree s" and "unregisterClient now s a = Inr s'"
  shows "rooms_agree s'"
proof (cases "map_of (clients s) (ID (store s a))")
  case None
  with assms show ?thesis by (simp add: unregisterClient_def)
next
  case (Some b)
  let ?c = "store s a"
  from assms(2) Some obtain ch where ch: "chan_close (Send ?c) = Inr ch"
    by (auto simp: unregisterClient_def Let_def split: sum.splits)
  let ?s2 = "s\<lparr>clients := AList.delete (ID ?c) (clients s),
               store := (store s)(a := ?c\<lparr>Send := ch\<rparr>)\<rparr>"
  let ?s4 = "logf Info (''Client unregistered: '' @ ID ?c @ '' (User: '' @ client.UserID ?c @ '')'')
               (leave_all ?s2 a)"
  have "rooms_agree ?s2"
    using assms(1) by (simp add: rooms_agree_def members_def)
  then have "rooms_agree (leave_all ?s2 a)"
    unfolding leave_all_def by (rule rooms_agree_fold_leave)
  then have "rooms_agree ?s4"
    by (simp add: rooms_agree_def members_def logf_def)
  moreover have "to_broadcast ?s4 (presence_message now (store ?s4 a) False) = Inr s'"
    using assms(2) Some ch by (simp add: unregisterClient_def Let_def sendPresenceUpdate_def)
  ultimately show ?thesis by (rule rooms_agree_to_broadcast)
qed

lemma rooms_agree_NewHub: "\<forall>a. Rooms (st a) = [] \<Longrightarrow> rooms_agree (NewHub st)"
  by (simp add: rooms_agree_def NewHub_def members_def)

lemma rooms_agree_registered: "rooms_agree s \<Longrightarrow> registered_rooms_agree s"
  by (simp add: rooms_agree_def registered_rooms_agree_def)

lemma filter_eq_single:
  "distinct xs \<Longrightarrow> a \<in> set xs \<Longrightarrow> filter (\<lambda>b. b = a) xs = [a]"
proof (induction xs)
  case Nil
  then show ?case by simp
next
  case (Cons x xs)
  show ?case
  proof (cases "x = a")
    case True
    with Cons.prems have "a \<notin> set xs" by simp
    then have "filter (\<lambda>b. b = a) xs = []" by (auto simp: filter_empty_conv)
    with True show ?thesis by simp
  next
    case False
    with Cons show ?thesis by simp
  qed
qed

lemma broadcastMessage_deliver:
  "marshal m = Some d \<Longrightarrow> broadcastMessage marshal s m = deliver d (recipients s m) s"
  by (simp add: broadcastMessage_def recipients_def members_def split: option.splits)

section \<open>Registration and unregistration\<close>

lemma presence_message_cong:
  "client.UserID c' = client.UserID c \<Longrightarrow> TeamID c' = TeamID c \<Longrightarrow>
   presence_message now c' online = presence_message now c online"
  by (simp add: presence_message_def Let_def)

lemma joinRoom_frame:
  "clients (joinRoom s a room) = clients s"
  "broadcast (joinRoom s a room) = broadcast s"
  "ID (store (joinRoom s a room) b) = ID (store s b)"
  "client.UserID (store (joinRoom s a room) b) = client.UserID (store s b)"
  "TeamID (store (joinRoom s a room) b) = TeamID (store s b)"
  "Send (store (joinRoom s a room) b) = Send (store s b)"
  by (simp_all add: joinRoom_def logf_def Let_def)

lemma leaveRoom_frame:
  "clients (leaveRoom s a room) = clients s"
  "broadcast (leaveRoom s a room) = broadcast s"
  "ID (store (leaveRoom s a room) b) = ID (store s b)"
  "client.UserID (store (leaveRoom s a room) b) = client.UserID (store s b)"
  "TeamID (store (leaveRoom s a room) b) = TeamID (store s b)"
  "Send (store (leaveRoom s a room) b) = Send (store s b)"
  by (simp_all add: leaveRoom_def logf_def Let_def split: option.splits)

lemma fold_leave_frame:
  "clients (fold (\<lambda>room s'. leaveRoom s' a room) rs s) = clients s \<and>
   broadcast (fold (\<lambda>room s'. leaveRoom s' a room) rs s) = broadcast s \<and>
   ID (store (fold (\<lambda>room s'. leaveRoom s' a room) rs s) b) = ID (store s b) \<and>
   client.UserID (store (fold (\<lambda>room s'. leaveRoom s' a room) rs s) b) = client.UserID (store s b) \<and>
   TeamID (store (fold (\<lambda>room s'. leaveRoom s' a room) rs s) b) = TeamID (store s b) \<and>
   Send (store (fold (\<lambda>room s'. leaveRoom s' a room) rs s) b) = Send (store s b)"
  by (induction rs arbitrary: s) (simp_all add: leaveRoom_frame)

lemma fold_leave_Rooms:
  "set (Rooms (store (fold (\<lambda>room s'. leaveRoom s' a room) rs s) a)) =
   set (Rooms (store s a)) - set rs"
  by (induction rs arbitrary: s) (auto simp: Rooms_leaveRoom)

lemma leave_all_Rooms: "Rooms (store (leave_all s a) a) = []"
  using fold_leave_Rooms[of a "Rooms (store s a)" s] by (simp add: leave_all_def)

lemma leave_all_not_member:
  assumes "rooms_agree s"
  shows "a \<notin> set (members (leave_all s a) room)"
proof -
  have "rooms_agree (leave_all s a)"
    unfolding leave_all_def using assms by (rule rooms_agree_fold_leave)
  then show ?thesis by (simp add: rooms_agree_def leave_all_Rooms)
qed

lemma registerClient_result:
  "\<exists>t. registerClient now s a = to_broadcast t (presence_message now (store s a) True) \<and>
       broadcast t = broadcast s \<and>
       map_of (clients t) (ID (store s a)) = Some a \<and>
       a \<in> set (members t ''global'') \<and>
       ''global'' \<in> set (Rooms (store t a)) \<and>
       (TeamID (store s a) \<noteq> [] \<longrightarrow>
          a \<in> set (members t (''team:'' @ TeamID (store s a))) \<and>
          (''team:'' @ TeamID (store s a)) \<in> set (Rooms (store t a)))"
proof -
  define c where "c = store s a"
  define s2 where "s2 = logf Info
      (''Client registered: '' @ ID c @ '' (User: '' @ client.UserID c @ '')'')
      (s\<lparr>clients := AList.update (ID c) a (clients s)\<rparr>)"
  define s3 where "s3 = joinRoom s2 a ''global''"
  define t where "t = (if TeamID c \<noteq> [] then joinRoom s3 a (''team:'' @ TeamID c) else s3)"
  have s2: "broadcast s2 = broadcast s" "map_of (clients s2) (ID c) = Some a"
      "client.UserID (store s2 a) = client.UserID c" "TeamID (store s2 a) = TeamID c"
    by (simp_all add: s2_def logf_def update_conv' c_def)
  have s3: "broadcast s3 = broadcast s" "map_of (clients s3) (ID c) = Some a"
      "client.UserID (store s3 a) = client.UserID c" "TeamID (store s3 a) = TeamID c"
      "a \<in> set (members s3 ''global'')" "''global'' \<in> set (Rooms (store s3 a))"
    by (simp_all add: s3_def joinRoom_frame members_joinRoom Rooms_joinRoom s2)
  have t: "broadcast t = broadcast s" "map_of (clients t) (ID c) = Some a"
      "client.UserID (store t a) = client.UserID c" "TeamID (store t a) = TeamID c"
      "a \<in> set (members t ''global'')" "''global'' \<in> set (Rooms (store t a))"
    by (simp_all add: t_def joinRoom_frame members_joinRoom Rooms_joinRoom s3)
  have team: "a \<in> set (members t (''team:'' @ TeamID c)) \<and>
              (''team:'' @ TeamID c) \<in> set (Rooms (store t a))" if "TeamID c \<noteq> []"
    using that by (simp add: t_def members_joinRoom Rooms_joinRoom)
  have pm: "presence_message now (store t a) True = presence_message now c True"
    using t(3,4) by (rule presence_message_cong)
  have "registerClient now s a = to_broadcast t (presence_message now (store t a) True)"
    by (simp only: registerClient_def sendPresenceUpdate_def Let_def t_def s3_def s2_def c_def)
  then have "registerClient now s a = to_broadcast t (presence_message now c True)"
    by (simp only: pm)
  with t team show ?thesis unfolding c_def by blast
qed


lemma unregisterClient_unregistered:
  "map_of (clients s) (ID (store s a)) = None \<Longrightarrow> unregisterClient now s a = Inr s"
  by (simp add: unregisterClient_def)

lemma unregisterClient_closed:
  "map_of (clients s) (ID (store s a)) = Some b \<Longrightarrow> closed (Send (store s a)) \<Longrightarrow>
   unregisterClient now s a = Inl Panic"
  by (simp add: unregisterClient_def chan_close_def)

lemma unregisterClient_result:
  assumes "map_of (clients s) (ID (store s a)) = Some b"
    and "\<not> closed (Send (store s a))"
    and "rooms_agree s"
  shows "\<exists>t. unregisterClient now s a =
               to_broadcast t (presence_message now (store s a) False) \<and>
             broadcast t = broadcast s \<and>
             map_of (clients t) (ID (store s a)) = None \<and>
             ID (store t a) = ID (store s a) \<and>
             closed (Send (store t a)) \<and>
             (\<forall>room. a \<notin> set (members t room))"
proof -
  define c where "c = store s a"
  define ch where "ch = (Send c)\<lparr>closed := True\<rparr>"
  define s2 where "s2 = s\<lparr>clients := AList.delete (ID c) (clients s),
                          store := (store s)(a := c\<lparr>Send := ch\<rparr>)\<rparr>"
  define s3 where "s3 = leave_all s2 a"
  define t where "t = logf Info
      (''Client unregistered: '' @ ID c @ '' (User: '' @ client.UserID c @ '')'') s3"
  have cl: "chan_close (Send c) = Inr ch"
    using assms(2) by (simp add: chan_close_def ch_def c_def)
  have s2: "broadcast s2 = broadcast s" "map_of (clients s2) (ID c) = None"
      "ID (store s2 a) = ID c" "client.UserID (store s2 a) = client.UserID c"
      "TeamID (store s2 a) = TeamID c" "closed (Send (store s2 a))"
    by (simp_all add: s2_def delete_conv' ch_def)
  have ag2: "rooms_agree s2"
    using assms(3) by (simp add: rooms_agree_def members_def s2_def c_def)
  have s3: "broadcast s3 = broadcast s" "map_of (clients s3) (ID c) = None"
      "ID (store s3 a) = ID c" "client.UserID (store s3 a) = client.UserID c"
      "TeamID (store s3 a) = TeamID c" "closed (Send (store s3 a))"
    using fold_leave_frame[of a "Rooms (store s2 a)" s2 a] s2
    by (simp_all add: s3_def leave_all_def)
  have nm: "a \<notin> set (members s3 room)" for room
    unfolding s3_def using ag2 by (rule leave_all_not_member)
  have t: "broadcast t = broadcast s" "map_of (clients t) (ID c) = None"
      "ID (store t a) = ID c" "client.UserID (store t a) = client.UserID c"
      "TeamID (store t a) = TeamID c" "closed (Send (store t a))"
      "\<forall>room. a \<notin> set (members t room)"
    using s3 nm by (simp_all add: t_def logf_def members_def)
  have pm: "presence_message now (store t a) False = presence_message now c False"
    using t(4,5) by (rule presence_message_cong)
  have "unregisterClient now s a = to_broadcast t (presence_message now (store t a) False)"
    using assms(1) cl
    by (simp add: unregisterClient_def sendPresenceUpdate_def Let_def t_def s3_def s2_def c_def)
  then have "unregisterClient now s a = to_broadcast t (presence_message now c False)"
    by (simp only: pm)
  with t show ?thesis unfolding c_def by blast
qed

lemma queued_props:
  "clients (queued s m) = clients s" "rooms (queued s m) = rooms s"
  "store (queued s m) = store s" "logger (queued s m) = logger s"
  "buf (broadcast (queued s m)) = buf (broadcast s) @ [m]"
  "members (queued s m) room = members s room"
  by (simp_all add: queued_def members_def)

text \<open>
  What \<open>registerClient\<close> does, by the state of the hub's broadcast channel: with a free
  slot it completes, and the client is then in the registry, in room global and, when it
  has a team, in the room of the team, with the presence envelope queued; with a full
  channel the send of the presence envelope blocks.
\<close>

lemma registerClient_completes:
  assumes "\<not> closed (broadcast s)"
  shows "registerClient now s a \<noteq> Inl Panic \<and>
         (\<not> has_room (broadcast s) \<longrightarrow> registerClient now s a = Inl Blocked) \<and>
         (has_room (broadcast s) \<longrightarrow>
            (\<exists>s'. registerClient now s a = Inr s' \<and>
                  map_of (clients s') (ID (store s a)) = Some a \<and>
                  a \<in> set (members s' ''global'') \<and>
                  ''global'' \<in> set (Rooms (store s' a)) \<and>
                  (TeamID (store s a) \<noteq> [] \<longrightarrow>
                     a \<in> set (members s' (''team:'' @ TeamID (store s a))) \<and>
                     (''team:'' @ TeamID (store s a)) \<in> set (Rooms (store s' a)) \<and>
                     buf (broadcast s') = buf (broadcast s) @
                       [\<lparr>Type = ''presence'', Room = ''team:'' @ TeamID (store s a),
                         message.UserID = client.UserID (store s a),
                         Data = JObject [(''status'', JString ''online'')],
                         Timestamp = now\<rparr>])))"
proof -
  from registerClient_result[of now s a] obtain t where
    r: "registerClient now s a = to_broadcast t (presence_message now (store s a) True)" and
    b: "broadcast t = broadcast s" and
    c: "map_of (clients t) (ID (store s a)) = Some a" and
    g: "a \<in> set (members t ''global'')" "''global'' \<in> set (Rooms (store t a))" and
    tm: "TeamID (store s a) \<noteq> [] \<longrightarrow>
          a \<in> set (members t (''team:'' @ TeamID (store s a))) \<and>
          (''team:'' @ TeamID (store s a)) \<in> set (Rooms (store t a))"
    by blast
  have op: "\<not> closed (broadcast t)" using assms b by simp
  have full: "registerClient now s a = Inl Blocked" if "\<not> has_room (broadcast s)"
    using that r b to_broadcast_full[OF op] by simp
  have free: "registerClient now s a = Inr (queued t (presence_message now (store s a) True))"
    if "has_room (broadcast s)"
    using that r b to_broadcast_free[OF op] by simp
  have np: "registerClient now s a \<noteq> Inl Panic"
    using full free by (cases "has_room (broadcast s)") simp_all
  have pm: "TeamID (store s a) \<noteq> [] \<Longrightarrow>
      presence_message now (store s a) True =
        \<lparr>Type = ''presence'', Room = ''team:'' @ TeamID (store s a),
         message.UserID = client.UserID (store s a),
         Data = JObject [(''status'', JString ''online'')], Timestamp = now\<rparr>"
    by (simp add: presence_message_def Let_def)
  show ?thesis
  proof (intro conjI impI)
    assume h: "has_room (broadcast s)"
    show "\<exists>s'. registerClient now s a = Inr s' \<and>
                  map_of (clients s') (ID (store s a)) = Some a \<and>
                  a \<in> set (members s' ''global'') \<and>
                  ''global'' \<in> set (Rooms (store s' a)) \<and>
                  (TeamID (store s a) \<noteq> [] \<longrightarrow>
                     a \<in> set (members s' (''team:'' @ TeamID (store s a))) \<and>
                     (''team:'' @ TeamID (store s a)) \<in> set (Rooms (store s' a)) \<and>
                     buf (broadcast s') = buf (broadcast s) @
                       [\<lparr>Type = ''presence'', Room = ''team:'' @ TeamID (store s a),
                         message.UserID = client.UserID (store s a),
                         Data = JObject [(''status'', JString ''online'')],
                         Timestamp = now\<rparr>])"
      using free[OF h] c g tm b pm
      by (intro exI[of _ "queued t (presence_message now (store s a) True)"])
         (simp add: queued_props)
  qed (use np full in simp_all)
qed

text \<open>
  What \<open>unregisterClient\<close> does: nothing for a client whose ID has no entry in the
  registry; and for a client that has one, with an open channel, in a hub whose index and
  room sets agree and whose broadcast channel has a free slot, the whole teardown, after
  which a second call does nothing.
\<close>

lemma unregisterClient_completes:
  "(\<not> registered s a \<longrightarrow> unregisterClient now s a = Inr s) \<and>
   (registered s a \<and> \<not> closed (Send (store s a)) \<and> rooms_agree s \<and>
    \<not> closed (broadcast s) \<and> has_room (broadcast s) \<longrightarrow>
      (\<exists>s'. unregisterClient now s a = Inr s' \<and>
            (\<forall>room. a \<notin> set (members s' room)) \<and>
            closed (Send (store s' a)) \<and>
            \<not> registered s' a \<and>
            buf (broadcast s') = buf (broadcast s) @
              [presence_message now (store s a) False] \<and>
            Type (presence_message now (store s a) False) = ''presence'' \<and>
            message.UserID (presence_message now (store s a) False) =
              client.UserID (store s a) \<and>
            Data (presence_message now (store s a) False) =
              JObject [(''status'', JString ''offline'')] \<and>
            unregisterClient later s' a = Inr s'))"
proof (intro conjI impI)
  assume "\<not> registered s a"
  then show "unregisterClient now s a = Inr s"
    by (simp add: registered_def unregisterClient_unregistered)
next
  assume h: "registered s a \<and> \<not> closed (Send (store s a)) \<and> rooms_agree s \<and>
             \<not> closed (broadcast s) \<and> has_room (broadcast s)"
  then obtain b where b: "map_of (clients s) (ID (store s a)) = Some b"
    by (auto simp: registered_def)
  from h have op: "\<not> closed (Send (store s a))" and ag: "rooms_agree s"
    and bo: "\<not> closed (broadcast s)" and hr: "has_room (broadcast s)"
    by simp_all
  from unregisterClient_result[OF b op ag, of now] obtain t where
    r: "unregisterClient now s a = to_broadcast t (presence_message now (store s a) False)" and
    bt: "broadcast t = broadcast s" and
    c: "map_of (clients t) (ID (store s a)) = None" and
    i: "ID (store t a) = ID (store s a)" and
    cl: "closed (Send (store t a))" and
    nm: "\<forall>room. a \<notin> set (members t room)"
    by blast
  let ?m = "presence_message now (store s a) False"
  let ?s' = "queued t ?m"
  have "to_broadcast t ?m = Inr ?s'"
    using bo hr bt by (intro to_broadcast_free) simp_all
  with r have 1: "unregisterClient now s a = Inr ?s'" by simp
  have 2: "\<not> registered ?s' a"
    using c i by (simp add: registered_def queued_props)
  then have 3: "unregisterClient later ?s' a = Inr ?s'"
    by (simp add: registered_def unregisterClient_unregistered)
  have 4: "Type ?m = ''presence''" "message.UserID ?m = client.UserID (store s a)"
      "Data ?m = JObject [(''status'', JString ''offline'')]"
    by (simp_all add: presence_message_def Let_def)
  show "\<exists>s'. unregisterClient now s a = Inr s' \<and>
            (\<forall>room. a \<notin> set (members s' room)) \<and>
            closed (Send (store s' a)) \<and>
            \<not> registered s' a \<and>
            buf (broadcast s') = buf (broadcast s) @ [?m] \<and>
            Type ?m = ''presence'' \<and>
            message.UserID ?m = client.UserID (store s a) \<and>
            Data ?m = JObject [(''status'', JString ''offline'')] \<and>
            unregisterClient later s' a = Inr s'"
    using 1 2 3 4 nm cl bt by (intro exI[of _ ?s']) (simp add: queued_props)
qed

lemma unregisterClient_blocked:
  assumes "registered s a" and "\<not> closed (Send (store s a))" and "rooms_agree s"
    and "\<not> closed (broadcast s)" and "\<not> has_room (broadcast s)"
  shows "unregisterClient now s a = Inl Blocked"
proof -
  from assms(1) obtain b where b: "map_of (clients s) (ID (store s a)) = Some b"
    by (auto simp: registered_def)
  from unregisterClient_result[OF b assms(2,3), of now] obtain t where
    r: "unregisterClient now s a = to_broadcast t (presence_message now (store s a) False)" and
    bt: "broadcast t = broadcast s"
    by blast
  have "to_broadcast t (presence_message now (store s a) False) = Inl Blocked"
    using assms(4,5) bt by (intro to_broadcast_full) simp_all
  with r show ?thesis by simp
qed

section \<open>The example hub\<close>

lemma ex_hub_eq:
  "ex_hub =
     \<lparr>clients = [(''c2'', 2), (''c3'', 3), (''c0'', 0)],
      rooms = [''team:T1'' \<mapsto> [3, 2], ''global'' \<mapsto> [0, 3, 2]],
      broadcast = \<lparr>buf = [], cap = 256, closed = False\<rparr>,
      logger =
        [(Info, ''Client registered: c2 (User: u2)''),
         (Debug, ''Client c2 joined room global''),
         (Debug, ''Client c2 joined room team:T1''),
         (Info, ''Client registered: c3 (User: u3)''),
         (Debug, ''Client c3 joined room global''),
         (Debug, ''Client c3 joined room team:T1''),
         (Info, ''Client registered: c0 (User: u0)''),
         (Debug, ''Client c0 joined room global'')],
      store = ex_store
        (2 := \<lparr>ID = ''c2'', client.UserID = ''u2'', TeamID = ''T1'',
               Send = \<lparr>buf = [''presence|team:T1|u2'', ''presence|team:T1|u3'',
                              ''presence||u0''],
                       cap = 256, closed = False\<rparr>,
               Rooms = [''team:T1'', ''global'']\<rparr>,
         3 := \<lparr>ID = ''c3'', client.UserID = ''u3'', TeamID = ''T1'',
               Send = \<lparr>buf = [''presence|team:T1|u3'', ''presence||u0''],
                       cap = 256, closed = False\<rparr>,
               Rooms = [''team:T1'', ''global'']\<rparr>,
         0 := \<lparr>ID = ''c0'', client.UserID = ''u0'', TeamID = [],
               Send = \<lparr>buf = [''presence||u0''], cap = 256, closed = False\<rparr>,
               Rooms = [''global'']\<rparr>)\<rparr>"
  by (simp add: ex_hub_def ex_events_def registerClient_def joinRoom_def logf_def
        sendPresenceUpdate_def
        presence_message_def to_broadcast_def chan_send_def chan_try_send_def NewHub_def
        ex_store_def new_client_def Let_def Run_step_def broadcastMessage_def ex_marshal_def)

section \<open>Broadcasts leave the index alone\<close>

lemma deliver_total:
  "\<forall>a\<in>set as. \<not> closed (Send (store s a)) \<Longrightarrow> \<exists>s'. deliver d as s = Inr s'"
proof (induction as arbitrary: s)
  case Nil
  then show ?case by simp
next
  case (Cons a as)
  show ?case
  proof (cases "has_room (Send (store s a))")
    case True
    let ?s1 = "s\<lparr>store := (store s)(a := enqueued d (store s a))\<rparr>"
    have "deliver d (a # as) s = deliver d as ?s1"
      using Cons.prems True by (simp add: chan_try_send_def has_room_def enqueued_def)
    moreover have "\<forall>b\<in>set as. \<not> closed (Send (store ?s1 b))"
      using Cons.prems by (simp add: enqueued_def)
    ultimately show ?thesis using Cons.IH by simp
  next
    case False
    let ?s1 = "logf Warn (''Client '' @ ID (store s a) @
                        '' send channel is full, dropping message'') s"
    have "deliver d (a # as) s = deliver d as ?s1"
      using Cons.prems False by (simp add: chan_try_send_def has_room_def)
    moreover have "\<forall>b\<in>set as. \<not> closed (Send (store ?s1 b))"
      using Cons.prems by (simp add: logf_def)
    ultimately show ?thesis using Cons.IH by simp
  qed
qed

lemma only_queues_Rooms: "only_queues s s' \<Longrightarrow> Rooms (store s' a) = Rooms (store s a)"
proof -
  assume "only_queues s s'"
  then obtain q where "store s' a = (store s a)\<lparr>Send := (Send (store s a))\<lparr>buf := q\<rparr>\<rparr>"
    unfolding only_queues_def by blast
  then show ?thesis by simp
qed

lemma broadcastMessage_only_queues:
  "broadcastMessage marshal s m = Inr s' \<Longrightarrow> only_queues s s'"
  by (auto simp: broadcastMessage_def only_queues_logf only_queues_refl
        dest: deliver_only_queues split: option.splits if_splits)

lemma SendToUser_only_queues:
  "SendToUser marshal s u m = Inr s' \<Longrightarrow> only_queues s s'"
  by (auto simp: SendToUser_def only_queues_logf dest: deliver_only_queues split: option.splits)

lemma rooms_agree_only_queues:
  assumes "rooms_agree s" and "only_queues s s'"
  shows "rooms_agree s'"
proof -
  have "rooms s' = rooms s" using assms(2) by (simp add: only_queues_def)
  moreover have "\<And>a. Rooms (store s' a) = Rooms (store s a)"
    using assms(2) by (rule only_queues_Rooms)
  ultimately show ?thesis using assms(1) rooms_agree_cong by blast
qed

lemma rooms_agree_Run_step:
  assumes "rooms_agree s" and "Run_step marshal now s ev = Inr s'"
  shows "rooms_agree s'"
proof (cases ev)
  case (Register_ev a)
  with assms show ?thesis by (auto simp: Run_step_def intro: rooms_agree_registerClient)
next
  case (Unregister_ev a)
  with assms show ?thesis by (auto simp: Run_step_def intro: rooms_agree_unregisterClient)
next
  case Broadcast_ev
  with assms(2) obtain m ms where
    b: "buf (broadcast s) = m # ms" and
    r: "broadcastMessage marshal (s\<lparr>broadcast := (broadcast s)\<lparr>buf := ms\<rparr>\<rparr>) m = Inr s'"
    by (auto simp: Run_step_def split: list.splits)
  have "rooms_agree (s\<lparr>broadcast := (broadcast s)\<lparr>buf := ms\<rparr>\<rparr>)"
    using assms(1) by (simp add: rooms_agree_def members_def)
  with r show ?thesis
    using broadcastMessage_only_queues rooms_agree_only_queues by blast
qed

lemma rooms_agree_Run:
  "rooms_agree s \<Longrightarrow> Run marshal s evs = Inr s' \<Longrightarrow> rooms_agree s'"
proof (induction evs arbitrary: s)
  case Nil
  then show ?case by simp
next
  case (Cons e evs)
  obtain now ev where e: "e = (now, ev)" by (cases e)
  from Cons.prems(2) e obtain t where
    t: "Run_step marshal now s ev = Inr t" and r: "Run marshal t evs = Inr s'"
    by (auto split: sum.splits)
  from Cons.prems(1) t have "rooms_agree t" by (rule rooms_agree_Run_step)
  then show ?case using r by (rule Cons.IH)
qed

section \<open>A read pump that fills the broadcast channel\<close>

lemma queued_queued_replicate:
  "queued (s\<lparr>broadcast := (broadcast s)\<lparr>buf := buf (broadcast s) @ replicate n m\<rparr>\<rparr>) m =
   s\<lparr>broadcast := (broadcast s)\<lparr>buf := buf (broadcast s) @ replicate (Suc n) m\<rparr>\<rparr>"
  by (simp add: queued_def replicate_append_same)

lemma ReadPump_floods:
  assumes "unmarshal f = Some m" and "Type m = ''chat''" and "Room m = []"
    and "\<not> closed (broadcast s)"
    and "length (buf (broadcast s)) + n \<le> cap (broadcast s)"
    and "m' = m\<lparr>message.UserID := client.UserID (store s a), Timestamp := now,
                 Room := ''team:'' @ TeamID (store s a)\<rparr>"
  shows "ReadPump unmarshal s a (replicate n (now, f)) =
           Inr (s\<lparr>broadcast := (broadcast s)\<lparr>buf := buf (broadcast s) @ replicate n m'\<rparr>\<rparr>)"
  using assms(5)
proof (induction n)
  case 0
  then show ?case by simp
next
  case (Suc n)
  define t where
    "t = s\<lparr>broadcast := (broadcast s)\<lparr>buf := buf (broadcast s) @ replicate n m'\<rparr>\<rparr>"
  from Suc have run: "ReadPump unmarshal s a (replicate n (now, f)) = Inr t"
    by (simp add: t_def)
  have free: "\<not> closed (broadcast t)" "has_room (broadcast t)"
    using assms(4) Suc.prems by (simp_all add: has_room_def t_def)
  have st: "store t = store s"
    by (simp add: t_def)
  have "ReadPump_frame unmarshal now t a f = to_broadcast t m'"
    using assms(1,2,3,6)
    by (simp add: ReadPump_frame_def handleMessage_def handleChatMessage_def st)
  then have step: "ReadPump_frame unmarshal now t a f = Inr (queued t m')"
    by (simp only: to_broadcast_free[OF free])
  have app: "ReadPump unmarshal s a (xs @ [(now, f)]) =
             (case ReadPump unmarshal s a xs of Inl e \<Rightarrow> Inl e
              | Inr t \<Rightarrow> ReadPump_frame unmarshal now t a f)" for xs
    by (induction xs arbitrary: s) (auto split: sum.splits)
  have "replicate (Suc n) (now, f) = replicate n (now, f) @ [(now, f)]"
    by (simp add: replicate_append_same)
  then have "ReadPump unmarshal s a (replicate (Suc n) (now, f)) =
             ReadPump_frame unmarshal now t a f"
    using app[of "replicate n (now, f)"] run by simp
  then show ?case using step unfolding t_def by (simp only: queued_queued_replicate)
qed

section \<open>The room of clients without a team\<close>

lemma joinRoom_other_room: "r \<noteq> room \<Longrightarrow> rooms (joinRoom s a room) r = rooms s r"
  by (simp add: joinRoom_def logf_def Let_def)

lemma leaveRoom_no_room: "rooms s r = None \<Longrightarrow> rooms (leaveRoom s a room) r = None"
  by (cases "r = room") (auto simp: leaveRoom_def logf_def Let_def split: option.splits)

lemma fold_leave_no_room:
  "rooms s r = None \<Longrightarrow> rooms (fold (\<lambda>room s'. leaveRoom s' a room) rs s) r = None"
  by (induction rs arbitrary: s) (simp_all add: leaveRoom_no_room)

lemma registerClient_no_teamless_room:
  assumes "rooms s ''team:'' = None" and "registerClient now s a = Inr s'"
  shows "rooms s' ''team:'' = None"
proof -
  define c where "c = store s a"
  define s2 where "s2 = logf Info
      (''Client registered: '' @ ID c @ '' (User: '' @ client.UserID c @ '')'')
      (s\<lparr>clients := AList.update (ID c) a (clients s)\<rparr>)"
  define s3 where "s3 = joinRoom s2 a ''global''"
  define t where "t = (if TeamID c \<noteq> [] then joinRoom s3 a (''team:'' @ TeamID c) else s3)"
  have "rooms s2 ''team:'' = None"
    using assms(1) by (simp add: s2_def logf_def)
  then have "rooms s3 ''team:'' = None"
    by (simp add: s3_def joinRoom_other_room)
  then have t: "rooms t ''team:'' = None"
    by (simp add: t_def joinRoom_other_room)
  have "registerClient now s a = to_broadcast t (presence_message now (store t a) True)"
    by (simp only: registerClient_def sendPresenceUpdate_def Let_def t_def s3_def s2_def c_def)
  with assms(2) have "s' = queued t (presence_message now (store t a) True)"
    using to_broadcast_Inr by simp
  with t show ?thesis by (simp add: queued_props)
qed

lemma unregisterClient_no_teamless_room:
  assumes "rooms s r = None" and "unregisterClient now s a = Inr s'"
  shows "rooms s' r = None"
proof (cases "map_of (clients s) (ID (store s a))")
  case None
  with assms show ?thesis by (simp add: unregisterClient_def)
next
  case (Some b)
  define c where "c = store s a"
  from assms(2) Some obtain ch where ch: "chan_close (Send c) = Inr ch"
    by (auto simp: unregisterClient_def Let_def c_def split: sum.splits)
  define s2 where "s2 = s\<lparr>clients := AList.delete (ID c) (clients s),
                          store := (store s)(a := c\<lparr>Send := ch\<rparr>)\<rparr>"
  define t where "t = logf Info
      (''Client unregistered: '' @ ID c @ '' (User: '' @ client.UserID c @ '')'')
      (leave_all s2 a)"
  have "rooms s2 r = None"
    using assms(1) by (simp add: s2_def)
  then have "rooms (leave_all s2 a) r = None"
    unfolding leave_all_def by (rule fold_leave_no_room)
  then have t: "rooms t r = None"
    by (simp add: t_def logf_def)
  have "unregisterClient now s a = to_broadcast t (presence_message now (store t a) False)"
    using Some ch
    by (simp add: unregisterClient_def sendPresenceUpdate_def Let_def t_def s2_def c_def)
  with assms(2) have "s' = queued t (presence_message now (store t a) False)"
    using to_broadcast_Inr by simp
  with t show ?thesis by (simp add: queued_props)
qed

lemma Run_step_no_teamless_room:
  assumes "rooms s ''team:'' = None" and "Run_step marshal now s ev = Inr s'"
  shows "rooms s' ''team:'' = None"
proof (cases ev)
  case (Register_ev a)
  with assms show ?thesis
    by (auto simp: Run_step_def intro: registerClient_no_teamless_room)
next
  case (Unregister_ev a)
  with assms show ?thesis
    by (auto simp: Run_step_def intro: unregisterClient_no_teamless_room)
next
  case Broadcast_ev
  with assms(2) obtain m ms where
    r: "broadcastMessage marshal (s\<lparr>broadcast := (broadcast s)\<lparr>buf := ms\<rparr>\<rparr>) m = Inr s'"
    by (auto simp: Run_step_def split: list.splits)
  then have "only_queues (s\<lparr>broadcast := (broadcast s)\<lparr>buf := ms\<rparr>\<rparr>) s'"
    by (rule broadcastMessage_only_queues)
  then have "rooms s' = rooms s" by (simp add: only_queues_def)
  with assms(1) show ?thesis by simp
qed

lemma Run_no_teamless_room:
  "rooms s ''team:'' = None \<Longrightarrow> Run marshal s evs = Inr s' \<Longrightarrow> rooms s' ''team:'' = None"
proof (induction evs arbitrary: s)
  case Nil
  then show ?case by simp
next
  case (Cons e evs)
  obtain now ev where e: "e = (now, ev)" by (cases e)
  from Cons.prems(2) e obtain t where
    t: "Run_step marshal now s ev = Inr t" and r: "Run marshal t evs = Inr s'"
    by (auto split: sum.splits)
  from Cons.prems(1) t have "rooms t ''team:'' = None" by (rule Run_step_no_teamless_room)
  then show ?case using r by (rule Cons.IH)
qed

lemma handleMessage_rooms: "handleMessage s a m = Inr s' \<Longrightarrow> rooms s' = rooms s"
  by (auto simp: handleMessage_def handleChatMessage_def handleTaskUpdate_def
        handleTypingIndicator_def logf_def queued_def dest!: to_broadcast_Inr split: if_splits)

lemma ReadPump_rooms: "ReadPump unmarshal s a fs = Inr s' \<Longrightarrow> rooms s' = rooms s"
proof (induction fs arbitrary: s)
  case Nil
  then show ?case by simp
next
  case (Cons x fs)
  obtain now f where x: "x = (now, f)" by (cases x)
  from Cons.prems x obtain t where
    t: "ReadPump_frame unmarshal now s a f = Inr t" and r: "ReadPump unmarshal t a fs = Inr s'"
    by (auto split: sum.splits)
  from t have "rooms t = rooms s"
    by (auto simp: ReadPump_frame_def logf_def dest: handleMessage_rooms split: option.splits)
  with Cons.IH[OF r] show ?case by simp
qed

section \<open>Facts about the example values\<close>

lemma ex_store_Rooms: "Rooms (ex_store a) = []"
  by (simp add: ex_store_def new_client_def)

lemma ex_hub_run: "Run ex_marshal (NewHub ex_store) ex_events = Inr ex_hub"
proof (cases "Run ex_marshal (NewHub ex_store) ex_events")
  case (Inl e)
  then have "clients ex_hub = clients (NewHub ex_store)" by (simp add: ex_hub_def)
  also have "\<dots> = []" by (simp add: NewHub_def)
  finally show ?thesis by (simp add: ex_hub_eq)
next
  case (Inr s)
  then show ?thesis by (simp add: ex_hub_def)
qed

lemma ex_hub_agree: "rooms_agree ex_hub"
  by (auto simp: rooms_agree_def members_def ex_hub_eq ex_store_def new_client_def
        split: if_splits)

lemma ex_team_recipients:
  "recipients ex_hub_full (ex_msg ''chat'' ''team:T1'' ''u2'' 9) = [3, 2]"
  by (simp add: recipients_def members_def ex_msg_def ex_hub_full_def ex_hub_eq)

lemma ex_team_frame:
  "ex_marshal (ex_msg ''chat'' ''team:T1'' ''u2'' 9) = Some ''chat|team:T1|u2''"
  by (simp add: ex_marshal_def ex_msg_def)

lemma ex_hub_full_open: "\<not> closed (Send (store ex_hub_full a))"
  by (simp add: ex_hub_full_def ex_hub_eq ex_store_def new_client_def)

lemma ex_hub_full_room:
  "has_room (Send (store ex_hub_full 2))" "\<not> has_room (Send (store ex_hub_full 3))"
  "has_room (Send (store ex_hub_full 0))"
  by (simp_all add: has_room_def ex_hub_full_def ex_hub_eq)

lemma NewHub_free:
  "\<not> closed (broadcast (NewHub st))" "has_room (broadcast (NewHub st))"
  by (simp_all add: NewHub_def has_room_def)

lemma ex_hub_free: "\<not> closed (broadcast ex_hub)" "has_room (broadcast ex_hub)"
  by (simp_all add: ex_hub_eq has_room_def)

lemma ex_hub_registered: "registered ex_hub 2" "\<not> registered ex_hub 4"
  by (simp_all add: registered_def ex_hub_eq ex_store_def new_client_def)

lemma ex_hub_flooded_reached:
  "ReadPump ex_unmarshal ex_hub 2 (replicate 256 (7, ''A'')) = Inr ex_hub_flooded"
proof -
  have u: "ex_unmarshal ''A'' = Some (ex_msg ''chat'' [] ''mallory'' 1)"
    by (simp add: ex_unmarshal_def)
  have m: "ex_msg ''chat'' ''team:T1'' ''u2'' 7 =
           (ex_msg ''chat'' [] ''mallory'' 1)
             \<lparr>message.UserID := client.UserID (store ex_hub 2), Timestamp := 7,
              Room := ''team:'' @ TeamID (store ex_hub 2)\<rparr>"
    by (simp add: ex_msg_def ex_hub_eq)
  have "ReadPump ex_unmarshal ex_hub 2 (replicate 256 (7, ''A'')) =
        Inr (ex_hub\<lparr>broadcast := (broadcast ex_hub)
               \<lparr>buf := buf (broadcast ex_hub) @
                        replicate 256 (ex_msg ''chat'' ''team:T1'' ''u2'' 7)\<rparr>\<rparr>)"
    by (rule ReadPump_floods[where unmarshal=ex_unmarshal and f="''A''"
          and m="ex_msg ''chat'' [] ''mallory'' 1" and s=ex_hub and a=2 and n=256 and now=7,
          OF u _ _ _ _ m])
       (simp_all add: ex_msg_def ex_hub_eq)
  moreover have "buf (broadcast ex_hub) = []"
    by (simp add: ex_hub_eq)
  ultimately show ?thesis by (simp add: ex_hub_flooded_def)
qed

lemma ex_hub_flooded_full:
  "\<not> closed (broadcast ex_hub_flooded)" "\<not> has_room (broadcast ex_hub_flooded)"
  by (simp_all add: ex_hub_flooded_def ex_hub_eq has_room_def)

lemma ex_hub_flooded_agree: "rooms_agree ex_hub_flooded"
  using ex_hub_agree by (simp add: rooms_agree_def members_def ex_hub_flooded_def)

lemma ex_guests_eq:
  "ex_guests =
     \<lparr>clients = [(''g0'', 0), (''g2'', 2)], rooms = [''global'' \<mapsto> [2, 0]],
      broadcast = \<lparr>buf = [], cap = 256, closed = False\<rparr>,
      logger =
        [(Info, ''Client registered: g0 (User: v0)''),
         (Debug, ''Client g0 joined room global''),
         (Info, ''Client registered: g2 (User: v2)''),
         (Debug, ''Client g2 joined room global'')],
      store = ex_guest_store
        (0 := \<lparr>ID = ''g0'', client.UserID = ''v0'', TeamID = [],
               Send = \<lparr>buf = [''presence||v0'', ''presence||v2''], cap = 256,
                       closed = False\<rparr>,
               Rooms = [''global'']\<rparr>,
         2 := \<lparr>ID = ''g2'', client.UserID = ''v2'', TeamID = [],
               Send = \<lparr>buf = [''presence||v2''], cap = 256, closed = False\<rparr>,
               Rooms = [''global'']\<rparr>)\<rparr>"
  by (simp add: ex_guests_def ex_guest_events_def ex_guest_store_def registerClient_def
        joinRoom_def logf_def sendPresenceUpdate_def presence_message_def to_broadcast_def
        chan_send_def chan_try_send_def NewHub_def new_client_def Let_def Run_step_def
        broadcastMessage_def ex_marshal_def)

lemma ex_guests_run: "Run ex_marshal (NewHub ex_guest_store) ex_guest_events = Inr ex_guests"
proof (cases "Run ex_marshal (NewHub ex_guest_store) ex_guest_events")
  case (Inl e)
  then have "clients ex_guests = clients (NewHub ex_guest_store)" by (simp add: ex_guests_def)
  also have "\<dots> = []" by (simp add: NewHub_def)
  finally show ?thesis by (simp add: ex_guests_eq)
next
  case (Inr s)
  then show ?thesis by (simp add: ex_guests_def)
qed

section \<open>Claims\<close>

text \<open>
  Claim C1. The room index and the clients' room sets agree in both directions: a client is
  in a room's member set exactly when the room is in the client's room set. This holds in
  a new hub over clients with empty room sets. Whenever it holds for all clients and rooms
  it holds in particular for every client in the registry and every room in the index, and
  it holds again after \<open>joinRoom\<close>, \<open>leaveRoom\<close>, \<open>registerClient\<close> and
  \<open>unregisterClient\<close>, and after every sequence of requests that \<open>Run\<close> serves.
\<close>

theorem rooms_agree_invariant:
  "((\<forall>b. Rooms (st b) = []) \<longrightarrow> rooms_agree (NewHub st)) \<and>
   (rooms_agree s \<longrightarrow>
      registered_rooms_agree s \<and>
      rooms_agree (joinRoom s a room) \<and>
      rooms_agree (leaveRoom s a room) \<and>
      (\<forall>s'. registerClient now s a = Inr s' \<longrightarrow> rooms_agree s') \<and>
      (\<forall>s'. unregisterClient now s a = Inr s' \<longrightarrow> rooms_agree s') \<and>
      (\<forall>s'. Run marshal s evs = Inr s' \<longrightarrow> rooms_agree s'))"
  using rooms_agree_NewHub rooms_agree_registered rooms_agree_joinRoom rooms_agree_leaveRoom
    rooms_agree_registerClient rooms_agree_unregisterClient rooms_agree_Run
  by blast

theorem rooms_agree_invariant_witness:
  "rooms_agree (NewHub ex_store) \<and>
   rooms_agree ex_hub \<and>
   rooms_agree (joinRoom ex_hub 0 ''channel:7'') \<and>
   rooms_agree (leaveRoom ex_hub 3 ''team:T1'') \<and>
   members (leaveRoom ex_hub 3 ''team:T1'') ''team:T1'' = [2] \<and>
   Rooms (store (leaveRoom ex_hub 3 ''team:T1'') 3) = [''global'']"
proof -
  have n: "rooms_agree (NewHub ex_store)"
    using rooms_agree_invariant[of ex_store] ex_store_Rooms by blast
  have h: "rooms_agree ex_hub"
    using rooms_agree_invariant[of _ "NewHub ex_store" _ _ _ ex_marshal ex_events] n ex_hub_run
    by blast
  have "rooms_agree (joinRoom ex_hub 0 ''channel:7'')"
    using rooms_agree_invariant[of _ ex_hub 0 "''channel:7''"] h by blast
  moreover have "rooms_agree (leaveRoom ex_hub 3 ''team:T1'')"
    using rooms_agree_invariant[of _ ex_hub 3 "''team:T1''"] h by blast
  moreover have "members (leaveRoom ex_hub 3 ''team:T1'') ''team:T1'' = [2]"
      "Rooms (store (leaveRoom ex_hub 3 ''team:T1'') 3) = [''global'']"
    by (simp_all add: leaveRoom_def members_def logf_def Let_def ex_hub_eq)
  ultimately show ?thesis using n h by simp
qed

text \<open>
  Claim C2. When the envelope serializes, \<open>broadcastMessage\<close> sends the frame to the
  members of the envelope's room when the room is set, and to every client in the
  registry when it is not: each of these clients whose channel has a free slot gets the
  frame once at the end of its queue, and the queue of every other client, in particular
  of every client outside the room, is as before.
\<close>

theorem broadcastMessage_exactly_members:
  assumes "marshal m = Some d"
    and "distinct (recipients s m)"
    and "\<forall>a\<in>set (recipients s m). \<not> closed (Send (store s a))"
  shows "\<exists>s'. broadcastMessage marshal s m = Inr s' \<and>
           (\<forall>a. store s' a =
                  (if a \<in> set (recipients s m) \<and> has_room (Send (store s a))
                   then enqueued d (store s a) else store s a))"
proof -
  from deliver_effect[OF assms(3) assms(2), of d] obtain t where
    "deliver d (recipients s m) s = Inr t" and
    "\<forall>a. store t a = (if a \<in> set (recipients s m) \<and> has_room (Send (store s a))
                           then enqueued d (store s a) else store s a)"
    by blast
  moreover have "broadcastMessage marshal s m = deliver d (recipients s m) s"
    using assms(1) by (rule broadcastMessage_deliver)
  ultimately show ?thesis by (intro exI[of _ t]) (simp only: simp_thms)
qed

theorem broadcastMessage_exactly_members_witness:
  "inbox (broadcastMessage ex_marshal ex_hub_full (ex_msg ''chat'' ''team:T1'' ''u2'' 9)) 2 =
     Inr [''presence|team:T1|u2'', ''presence|team:T1|u3'', ''presence||u0'',
          ''chat|team:T1|u2''] \<and>
   inbox (broadcastMessage ex_marshal ex_hub_full (ex_msg ''chat'' ''team:T1'' ''u2'' 9)) 3 =
     Inr (replicate 256 ''x'') \<and>
   inbox (broadcastMessage ex_marshal ex_hub_full (ex_msg ''chat'' ''team:T1'' ''u2'' 9)) 0 =
     Inr [''presence||u0'']"
proof -
  let ?m = "ex_msg ''chat'' ''team:T1'' ''u2'' 9"
  have d: "distinct (recipients ex_hub_full ?m)"
    by (simp add: ex_team_recipients)
  have o: "\<forall>a\<in>set (recipients ex_hub_full ?m). \<not> closed (Send (store ex_hub_full a))"
    by (simp add: ex_hub_full_open)
  from broadcastMessage_exactly_members[where marshal=ex_marshal and m="?m"
      and d="''chat|team:T1|u2''" and s=ex_hub_full, OF ex_team_frame d o] obtain s' where
    r: "broadcastMessage ex_marshal ex_hub_full ?m = Inr s'" and
    st: "\<forall>a. store s' a =
           (if a \<in> set (recipients ex_hub_full ?m) \<and> has_room (Send (store ex_hub_full a))
            then enqueued ''chat|team:T1|u2'' (store ex_hub_full a) else store ex_hub_full a)"
    by blast
  have "store s' 2 = enqueued ''chat|team:T1|u2'' (store ex_hub_full 2)"
       "store s' 3 = store ex_hub_full 3" "store s' 0 = store ex_hub_full 0"
    using st by (simp_all add: ex_team_recipients ex_hub_full_room)
  then have "buf (Send (store s' 2)) =
      [''presence|team:T1|u2'', ''presence|team:T1|u3'', ''presence||u0'', ''chat|team:T1|u2'']"
    "buf (Send (store s' 3)) = replicate 256 ''x''"
    "buf (Send (store s' 0)) = [''presence||u0'']"
    by (simp_all add: enqueued_def ex_hub_full_def ex_hub_eq)
  then show ?thesis by (simp add: r inbox_def)
qed

text \<open>
  Claim C3. After \<open>registerClient\<close> the client is in the registry, in room global and
  in the room of its team, with the online presence envelope emitted, and registration
  never fails. The code does not keep the last part. The read pump of the client at 2
  reads 256 chat frames before \<open>Run\<close> serves any of them, which fills the hub's
  broadcast channel of capacity 256. A registration that \<open>Run\<close> serves next blocks at
  the send of the presence envelope: \<open>Run\<close> is the only receiver of that channel, so
  the registration never completes and no later request is served.
\<close>

theorem registerClient_blocks:
  "ReadPump ex_unmarshal ex_hub 2 (replicate 256 (7, ''A'')) = Inr ex_hub_flooded \<and>
   registerClient 8 ex_hub_flooded 4 = Inl Blocked \<and>
   Run ex_marshal ex_hub_flooded [(8, Register_ev 4), (8, Broadcast_ev)] = Inl Blocked"
proof -
  have "registerClient 8 ex_hub_flooded 4 = Inl Blocked"
    using registerClient_completes[OF ex_hub_flooded_full(1), of 8 4] ex_hub_flooded_full(2)
    by blast
  then show ?thesis
    by (simp add: ex_hub_flooded_reached Run_step_def)
qed

text \<open>
  Claim C4. \<open>unregisterClient\<close> of a registered client removes it from every room,
  closes its channel, removes it from the registry and emits one offline presence
  envelope. The code does not keep the last part. In the hub whose broadcast channel the
  read pump of the client at 2 has filled, the client at 2 is registered, and its
  unregistration blocks at the send of the presence envelope: the envelope is never
  emitted, \<open>unregisterClient\<close> never returns and no later request is served.
\<close>

theorem unregisterClient_blocks:
  "ReadPump ex_unmarshal ex_hub 2 (replicate 256 (7, ''A'')) = Inr ex_hub_flooded \<and>
   registered ex_hub_flooded 2 \<and>
   unregisterClient 8 ex_hub_flooded 2 = Inl Blocked \<and>
   Run ex_marshal ex_hub_flooded [(8, Unregister_ev 2), (8, Broadcast_ev)] = Inl Blocked"
proof -
  have r: "registered ex_hub_flooded 2"
    using ex_hub_registered(1) by (simp add: registered_def ex_hub_flooded_def)
  have o: "\<not> closed (Send (store ex_hub_flooded 2))"
    by (simp add: ex_hub_flooded_def ex_hub_eq)
  have "unregisterClient 8 ex_hub_flooded 2 = Inl Blocked"
    using r o ex_hub_flooded_agree ex_hub_flooded_full by (rule unregisterClient_blocked)
  then show ?thesis
    using r by (simp add: ex_hub_flooded_reached Run_step_def)
qed

text \<open>
  Claim C5, as amended. When the broadcast channel has a free slot, the dispatcher
  forwards a chat envelope with the room the client gave, or with the room of the
  connection's team when the client gave none; it forwards a task_update or typing
  envelope with the room of the connection's team whatever room the client gave; and it
  logs and drops an envelope of any other type, leaving the broadcast channel as it was.
\<close>

theorem handleMessage_routing:
  assumes "\<not> closed (broadcast s)" and "has_room (broadcast s)"
  shows "handleMessage s a msg =
           (if Type msg = ''chat'' then
              Inr (queued s (if Room msg = [] then msg\<lparr>Room := ''team:'' @ TeamID (store s a)\<rparr>
                             else msg))
            else if Type msg = ''task_update'' \<or> Type msg = ''typing'' then
              Inr (queued s (msg\<lparr>Room := ''team:'' @ TeamID (store s a)\<rparr>))
            else Inr (logf Warn (''Unknown message type: '' @ Type msg) s)) \<and>
         broadcast (logf Warn (''Unknown message type: '' @ Type msg) s) = broadcast s"
  by (simp add: handleMessage_def handleChatMessage_def handleTaskUpdate_def
        handleTypingIndicator_def to_broadcast_free[OF assms] logf_def)

theorem handleMessage_routing_counterexample:
  "outbox (handleMessage (NewHub ex_store) 2 (ex_msg ''typing'' ''channel:7'' ''u2'' 9)) =
     Inr [ex_msg ''typing'' ''team:T1'' ''u2'' 9] \<and>
   outbox (handleMessage (NewHub ex_store) 2 (ex_msg ''typing'' ''channel:7'' ''u2'' 9)) \<noteq>
     Inr [ex_msg ''typing'' ''channel:7'' ''u2'' 9]"
  by (simp add: handleMessage_def handleTypingIndicator_def to_broadcast_def chan_send_def
        outbox_def NewHub_def ex_msg_def ex_store_def new_client_def)

theorem handleMessage_routing_witness:
  "handleMessage (NewHub ex_store) 2 (ex_msg ''chat'' ''channel:7'' ''u2'' 9) =
     Inr (queued (NewHub ex_store) (ex_msg ''chat'' ''channel:7'' ''u2'' 9)) \<and>
   handleMessage (NewHub ex_store) 2 (ex_msg ''chat'' [] ''u2'' 9) =
     Inr (queued (NewHub ex_store) (ex_msg ''chat'' ''team:T1'' ''u2'' 9)) \<and>
   handleMessage (NewHub ex_store) 2 (ex_msg ''task_update'' ''channel:7'' ''u2'' 9) =
     Inr (queued (NewHub ex_store) (ex_msg ''task_update'' ''team:T1'' ''u2'' 9)) \<and>
   handleMessage (NewHub ex_store) 2 (ex_msg ''presence'' ''channel:7'' ''u2'' 9) =
     Inr (logf Warn ''Unknown message type: presence'' (NewHub ex_store))"
proof -
  note th = handleMessage_routing[OF NewHub_free, of ex_store 2]
  have t: "TeamID (store (NewHub ex_store) 2) = ''T1''"
    by (simp add: NewHub_def ex_store_def new_client_def)
  show ?thesis
    using th[of "ex_msg ''chat'' ''channel:7'' ''u2'' 9"] th[of "ex_msg ''chat'' [] ''u2'' 9"]
      th[of "ex_msg ''task_update'' ''channel:7'' ''u2'' 9"]
      th[of "ex_msg ''presence'' ''channel:7'' ''u2'' 9"]
    by (simp add: ex_msg_def t)
qed

text \<open>
  Claim C6, as amended. The presence envelope carries the client's user ID and the status
  online or offline. For a client with a team it is addressed to the room of the team, and
  a broadcast of it ranges over the members of that room. For a client without a team its
  room is empty, and a broadcast of it ranges over every client in the registry.
\<close>

theorem presence_target:
  assumes "\<not> closed (broadcast s)" and "has_room (broadcast s)"
    and "m = presence_message now (store s a) online"
    and "marshal m = Some d"
  shows "sendPresenceUpdate now s a online = Inr (queued s m) \<and>
         Type m = ''presence'' \<and>
         message.UserID m = client.UserID (store s a) \<and>
         Data m = JObject [(''status'', JString (if online then ''online'' else ''offline''))] \<and>
         Room m = (if TeamID (store s a) = [] then [] else ''team:'' @ TeamID (store s a)) \<and>
         broadcastMessage marshal s' m =
           deliver d (if TeamID (store s a) = [] then map snd (clients s')
                      else members s' (''team:'' @ TeamID (store s a))) s'"
proof -
  have 1: "sendPresenceUpdate now s a online = Inr (queued s m)"
    using assms(1-3) by (simp add: sendPresenceUpdate_def to_broadcast_free)
  have 2: "Type m = ''presence''" "message.UserID m = client.UserID (store s a)"
      "Data m = JObject [(''status'', JString (if online then ''online'' else ''offline''))]"
      "Room m = (if TeamID (store s a) = [] then [] else ''team:'' @ TeamID (store s a))"
    using assms(3) by (simp_all add: presence_message_def Let_def)
  have 3: "broadcastMessage marshal s' m =
           deliver d (if TeamID (store s a) = [] then map snd (clients s')
                      else members s' (''team:'' @ TeamID (store s a))) s'"
    using assms(4) 2(4) by (simp add: broadcastMessage_def members_def split: option.splits)
  show ?thesis using 1 2 3 by simp
qed

theorem presence_target_counterexample:
  "TeamID (ex_store 0) = [] \<and>
   inbox (Run ex_marshal (NewHub ex_store)
            [(1, Register_ev 2), (1, Broadcast_ev), (2, Register_ev 0), (2, Broadcast_ev)]) 2 =
     Inr [''presence|team:T1|u2'', ''presence||u0'']"
  by (simp add: inbox_def registerClient_def joinRoom_def logf_def sendPresenceUpdate_def
        presence_message_def to_broadcast_def chan_send_def chan_try_send_def NewHub_def
        ex_store_def new_client_def Let_def Run_step_def broadcastMessage_def ex_marshal_def)

theorem presence_target_witness:
  "sendPresenceUpdate 3 (NewHub ex_store) 0 True =
     Inr (queued (NewHub ex_store)
            \<lparr>Type = ''presence'', Room = [], message.UserID = ''u0'',
             Data = JObject [(''status'', JString ''online'')], Timestamp = 3\<rparr>) \<and>
   broadcastMessage ex_marshal ex_hub
       \<lparr>Type = ''presence'', Room = [], message.UserID = ''u0'',
        Data = JObject [(''status'', JString ''online'')], Timestamp = 3\<rparr> =
     deliver ''presence||u0'' [2, 3, 0] ex_hub"
proof -
  let ?m = "\<lparr>Type = ''presence'', Room = [], message.UserID = ''u0'',
             Data = JObject [(''status'', JString ''online'')], Timestamp = 3\<rparr>"
  have m: "?m = presence_message 3 (store (NewHub ex_store) 0) True"
    by (simp add: presence_message_def Let_def NewHub_def ex_store_def new_client_def)
  have d: "ex_marshal ?m = Some ''presence||u0''"
    by (simp add: ex_marshal_def)
  have t: "TeamID (store (NewHub ex_store) 0) = []"
    by (simp add: NewHub_def ex_store_def new_client_def)
  have c: "map snd (clients ex_hub) = [2, 3, 0]"
    by (simp add: ex_hub_eq)
  from presence_target[where marshal=ex_marshal and m="?m" and d="''presence||u0''"
      and s="NewHub ex_store" and a=0 and now=3 and online=True and s'=ex_hub,
      OF NewHub_free m d]
  show ?thesis by (simp only: t c if_True simp_thms)
qed

text \<open>
  Claim C7. A broadcast never blocks. When exactly one recipient's channel is full, the
  broadcast completes, that recipient's client is left as it was, a warning naming it is
  the one line added to the log, and every other recipient gets the frame.
\<close>

theorem broadcastMessage_full_queue:
  assumes "marshal m = Some d"
    and "distinct (recipients s m)"
    and "\<forall>b\<in>set (recipients s m). \<not> closed (Send (store s b))"
    and "a \<in> set (recipients s m)"
    and "\<forall>b\<in>set (recipients s m). has_room (Send (store s b)) \<longleftrightarrow> b \<noteq> a"
  shows "broadcastMessage marshal s' m' \<noteq> Inl Blocked \<and>
         (\<exists>t. broadcastMessage marshal s m = Inr t \<and>
              store t a = store s a \<and>
              (\<forall>b\<in>set (recipients s m). b \<noteq> a \<longrightarrow> store t b = enqueued d (store s b)) \<and>
              logger t = logger s @ [full_warning (store s a)])"
proof -
  have nb: "broadcastMessage marshal s' m' \<noteq> Inl Blocked"
    by (auto simp: broadcastMessage_def deliver_not_Blocked split: option.splits)
  from deliver_effect[OF assms(3) assms(2), of d] obtain t where
    t: "deliver d (recipients s m) s = Inr t" and
    st: "\<forall>b. store t b = (if b \<in> set (recipients s m) \<and> has_room (Send (store s b))
                           then enqueued d (store s b) else store s b)" and
    lg: "logger t = logger s @ map (\<lambda>b. full_warning (store s b))
                      (filter (\<lambda>b. \<not> has_room (Send (store s b))) (recipients s m))"
    by blast
  have "filter (\<lambda>b. \<not> has_room (Send (store s b))) (recipients s m) =
        filter (\<lambda>b. b = a) (recipients s m)"
    using assms(5) by (intro filter_cong) auto
  also have "\<dots> = [a]"
    using assms(2,4) by (rule filter_eq_single)
  finally have f: "filter (\<lambda>b. \<not> has_room (Send (store s b))) (recipients s m) = [a]" .
  have "store t a = store s a" using st assms(4,5) by simp
  moreover have "\<forall>b\<in>set (recipients s m). b \<noteq> a \<longrightarrow> store t b = enqueued d (store s b)"
    using st assms(5) by simp
  moreover have "logger t = logger s @ [full_warning (store s a)]"
    using lg f by simp
  ultimately show ?thesis
    using nb t broadcastMessage_deliver[where marshal=marshal and m=m and d=d and s=s, OF assms(1)]
    by simp
qed

theorem broadcastMessage_full_queue_witness:
  "inbox (broadcastMessage ex_marshal ex_hub_full (ex_msg ''chat'' ''team:T1'' ''u2'' 9)) 2 =
     Inr [''presence|team:T1|u2'', ''presence|team:T1|u3'', ''presence||u0'',
          ''chat|team:T1|u2''] \<and>
   inbox (broadcastMessage ex_marshal ex_hub_full (ex_msg ''chat'' ''team:T1'' ''u2'' 9)) 3 =
     Inr (replicate 256 ''x'') \<and>
   (\<exists>t. broadcastMessage ex_marshal ex_hub_full (ex_msg ''chat'' ''team:T1'' ''u2'' 9) = Inr t \<and>
        logger t = logger ex_hub_full @
          [(Warn, ''Client c3 send channel is full, dropping message'')])"
proof -
  let ?m = "ex_msg ''chat'' ''team:T1'' ''u2'' 9"
  have d: "distinct (recipients ex_hub_full ?m)"
    by (simp add: ex_team_recipients)
  have o: "\<forall>a\<in>set (recipients ex_hub_full ?m). \<not> closed (Send (store ex_hub_full a))"
    by (simp add: ex_hub_full_open)
  have i: "3 \<in> set (recipients ex_hub_full ?m)"
    by (simp add: ex_team_recipients)
  have f: "\<forall>b\<in>set (recipients ex_hub_full ?m). has_room (Send (store ex_hub_full b)) \<longleftrightarrow> b \<noteq> 3"
    by (simp add: ex_team_recipients ex_hub_full_room)
  from broadcastMessage_full_queue[where marshal=ex_marshal and m="?m"
      and d="''chat|team:T1|u2''" and s=ex_hub_full and a=3, OF ex_team_frame d o i f] obtain t where
    r: "broadcastMessage ex_marshal ex_hub_full ?m = Inr t" and
    a: "store t 3 = store ex_hub_full 3" and
    b: "\<forall>b\<in>set (recipients ex_hub_full ?m). b \<noteq> 3 \<longrightarrow>
           store t b = enqueued ''chat|team:T1|u2'' (store ex_hub_full b)" and
    l: "logger t = logger ex_hub_full @ [full_warning (store ex_hub_full 3)]"
    by blast
  from b have "store t 2 = enqueued ''chat|team:T1|u2'' (store ex_hub_full 2)"
    by (simp add: ex_team_recipients)
  then have "buf (Send (store t 2)) =
      [''presence|team:T1|u2'', ''presence|team:T1|u3'', ''presence||u0'', ''chat|team:T1|u2'']"
    by (simp add: enqueued_def ex_hub_full_def ex_hub_eq)
  moreover have "buf (Send (store t 3)) = replicate 256 ''x''"
    using a by (simp add: ex_hub_full_def)
  moreover have "full_warning (store ex_hub_full 3) =
                 (Warn, ''Client c3 send channel is full, dropping message'')"
    by (simp add: full_warning_def ex_hub_full_def ex_hub_eq)
  ultimately show ?thesis using r l by (simp add: inbox_def)
qed

text \<open>
  Claim C8. For every frame that decodes into an envelope, the read pump replaces the
  envelope's user ID by the connection's user ID and its timestamp by the server's time
  before it dispatches. Two frames whose envelopes differ only in the user ID and the
  timestamp they carry are handled identically; what is dispatched is built from the
  decoded type, room and data, the connection's user ID and the server's time alone; and
  an envelope that the step puts on the broadcast channel carries the connection's user
  ID and the server's time.
\<close>

theorem ReadPump_overwrites_sender:
  assumes "unmarshal f1 = Some m1" and "unmarshal f2 = Some m2"
    and "Type m1 = Type m2" and "Room m1 = Room m2" and "Data m1 = Data m2"
  shows "ReadPump_frame unmarshal now s a f1 = ReadPump_frame unmarshal now s a f2 \<and>
         ReadPump_frame unmarshal now s a f1 =
           handleMessage s a
             \<lparr>Type = Type m1, Room = Room m1, message.UserID = client.UserID (store s a),
              Data = Data m1, Timestamp = now\<rparr> \<and>
         (\<forall>s'. ReadPump_frame unmarshal now s a f1 = Inr s' \<longrightarrow>
            buf (broadcast s') = buf (broadcast s) \<or>
            (\<exists>m. buf (broadcast s') = buf (broadcast s) @ [m] \<and>
                 message.UserID m = client.UserID (store s a) \<and> Timestamp m = now))"
proof -
  let ?d = "\<lparr>Type = Type m1, Room = Room m1, message.UserID = client.UserID (store s a),
              Data = Data m1, Timestamp = now\<rparr>"
  have e1: "m1\<lparr>message.UserID := client.UserID (store s a), Timestamp := now\<rparr> = ?d"
    by (cases m1) simp
  have e2: "m2\<lparr>message.UserID := client.UserID (store s a), Timestamp := now\<rparr> = ?d"
    using assms(3-5) by (cases m2) simp
  have r1: "ReadPump_frame unmarshal now s a f1 = handleMessage s a ?d"
    by (simp only: ReadPump_frame_def assms(1) option.case e1)
  have r2: "ReadPump_frame unmarshal now s a f2 = handleMessage s a ?d"
    by (simp only: ReadPump_frame_def assms(2) option.case e2)
  have r3: "buf (broadcast s') = buf (broadcast s) \<or>
            (\<exists>m. buf (broadcast s') = buf (broadcast s) @ [m] \<and>
                 message.UserID m = client.UserID (store s a) \<and> Timestamp m = now)"
    if "handleMessage s a ?d = Inr s'" for s'
    using that
    by (auto simp: handleMessage_def handleChatMessage_def handleTaskUpdate_def
          handleTypingIndicator_def logf_def queued_def
          dest!: to_broadcast_Inr split: if_splits)
  show ?thesis using r1 r2 r3 by simp
qed

theorem ReadPump_overwrites_sender_witness:
  "ex_unmarshal ''A'' = Some (ex_msg ''chat'' [] ''mallory'' 1) \<and>
   ex_unmarshal ''B'' = Some (ex_msg ''chat'' [] ''u2'' 2) \<and>
   ReadPump_frame ex_unmarshal 7 (NewHub ex_store) 2 ''A'' =
   ReadPump_frame ex_unmarshal 7 (NewHub ex_store) 2 ''B'' \<and>
   ReadPump_frame ex_unmarshal 7 (NewHub ex_store) 2 ''A'' =
   Inr (queued (NewHub ex_store) (ex_msg ''chat'' ''team:T1'' ''u2'' 7))"
proof -
  have a: "ex_unmarshal ''A'' = Some (ex_msg ''chat'' [] ''mallory'' 1)"
    and b: "ex_unmarshal ''B'' = Some (ex_msg ''chat'' [] ''u2'' 2)"
    by (simp_all add: ex_unmarshal_def)
  have free: "\<not> closed (broadcast (NewHub ex_store))" "has_room (broadcast (NewHub ex_store))"
    by (simp_all add: NewHub_def has_room_def)
  have t: "TeamID (store (NewHub ex_store) 2) = ''T1''"
      "client.UserID (store (NewHub ex_store) 2) = ''u2''"
    by (simp_all add: NewHub_def ex_store_def new_client_def)
  have h: "handleMessage (NewHub ex_store) 2
          \<lparr>Type = ''chat'', Room = [], message.UserID = ''u2'', Data = JString ''hi'',
           Timestamp = 7\<rparr> =
        Inr (queued (NewHub ex_store) (ex_msg ''chat'' ''team:T1'' ''u2'' 7))"
    by (simp add: handleMessage_def handleChatMessage_def to_broadcast_free[OF free] t
          ex_msg_def)
  have eqs: "Type (ex_msg ''chat'' [] ''mallory'' 1) = Type (ex_msg ''chat'' [] ''u2'' 2)"
      "Room (ex_msg ''chat'' [] ''mallory'' 1) = Room (ex_msg ''chat'' [] ''u2'' 2)"
      "Data (ex_msg ''chat'' [] ''mallory'' 1) = Data (ex_msg ''chat'' [] ''u2'' 2)"
    by (simp_all add: ex_msg_def)
  note th = ReadPump_overwrites_sender[OF a b eqs, of 7 "NewHub ex_store" 2]
  from th have e1: "ReadPump_frame ex_unmarshal 7 (NewHub ex_store) 2 ''A'' =
                    ReadPump_frame ex_unmarshal 7 (NewHub ex_store) 2 ''B''" ..
  have r: "\<lparr>Type = Type (ex_msg ''chat'' [] ''mallory'' 1),
            Room = Room (ex_msg ''chat'' [] ''mallory'' 1),
            message.UserID = client.UserID (store (NewHub ex_store) 2),
            Data = Data (ex_msg ''chat'' [] ''mallory'' 1), Timestamp = 7\<rparr> =
           \<lparr>Type = ''chat'', Room = [], message.UserID = ''u2'', Data = JString ''hi'',
            Timestamp = 7\<rparr>"
    by (simp add: ex_msg_def t)
  from th have "ReadPump_frame ex_unmarshal 7 (NewHub ex_store) 2 ''A'' =
                handleMessage (NewHub ex_store) 2
                  \<lparr>Type = Type (ex_msg ''chat'' [] ''mallory'' 1),
                   Room = Room (ex_msg ''chat'' [] ''mallory'' 1),
                   message.UserID = client.UserID (store (NewHub ex_store) 2),
                   Data = Data (ex_msg ''chat'' [] ''mallory'' 1), Timestamp = 7\<rparr>"
    by (rule conjunct1[OF conjunct2])
  then have e2: "ReadPump_frame ex_unmarshal 7 (NewHub ex_store) 2 ''A'' =
                 Inr (queued (NewHub ex_store) (ex_msg ''chat'' ''team:T1'' ''u2'' 7))"
    by (simp only: r h)
  show ?thesis by (intro conjI a b e1 e2)
qed

text \<open>
  Claim C9, as amended. For a client without a team, a chat envelope without a room, and
  every task_update and typing envelope, is forwarded to the broadcast channel with the
  room \<open>team:\<close>, and a broadcast of the forwarded envelope ranges over the members of
  that room and not over the registry. The room \<open>team:\<close> has no entry in a new hub,
  and neither \<open>Run\<close> nor a read pump gives it one, since \<open>registerClient\<close> joins
  the room of a team only for a client that has a team; so the broadcast of the forwarded
  envelope changes nothing: no client receives it.
\<close>

theorem teamless_routing:
  assumes "TeamID (store s a) = []"
    and "Type msg = ''chat'' \<and> Room msg = [] \<or> Type msg = ''task_update'' \<or> Type msg = ''typing''"
    and "\<not> closed (broadcast s)" and "has_room (broadcast s)"
  shows "handleMessage s a msg = Inr (queued s (msg\<lparr>Room := ''team:''\<rparr>)) \<and>
         (\<forall>d. marshal (msg\<lparr>Room := ''team:''\<rparr>) = Some d \<longrightarrow>
            broadcastMessage marshal s' (msg\<lparr>Room := ''team:''\<rparr>) =
              deliver d (members s' ''team:'') s') \<and>
         rooms (NewHub st) ''team:'' = None \<and>
         (rooms s' ''team:'' = None \<longrightarrow>
            (\<forall>t. Run marshal s' evs = Inr t \<or> ReadPump unmarshal s' b fs = Inr t \<longrightarrow>
                 rooms t ''team:'' = None) \<and>
            (\<forall>d. marshal (msg\<lparr>Room := ''team:''\<rparr>) = Some d \<longrightarrow>
               broadcastMessage marshal s' (msg\<lparr>Room := ''team:''\<rparr>) = Inr s'))"
proof -
  have 1: "handleMessage s a msg = Inr (queued s (msg\<lparr>Room := ''team:''\<rparr>))"
    using assms(1,2)
    by (auto simp: handleMessage_def handleChatMessage_def handleTaskUpdate_def
          handleTypingIndicator_def to_broadcast_free[OF assms(3,4)])
  have 2: "broadcastMessage marshal s' (msg\<lparr>Room := ''team:''\<rparr>) =
             deliver d (members s' ''team:'') s'"
    if "marshal (msg\<lparr>Room := ''team:''\<rparr>) = Some d" for d
    using that by (simp add: broadcastMessage_def members_def split: option.splits)
  have 3: "rooms (NewHub st) ''team:'' = None"
    by (simp add: NewHub_def)
  have 4: "rooms t ''team:'' = None"
    if "rooms s' ''team:'' = None"
      and "Run marshal s' evs = Inr t \<or> ReadPump unmarshal s' b fs = Inr t" for t
    using that Run_no_teamless_room ReadPump_rooms by metis
  have 5: "broadcastMessage marshal s' (msg\<lparr>Room := ''team:''\<rparr>) = Inr s'"
    if "rooms s' ''team:'' = None" and "marshal (msg\<lparr>Room := ''team:''\<rparr>) = Some d" for d
    using that by (simp add: broadcastMessage_def)
  show ?thesis using 1 2 3 4 5 by blast
qed

theorem teamless_routing_counterexample:
  "TeamID (store ex_guests 0) = [] \<and> TeamID (store ex_guests 2) = [] \<and>
   registered ex_guests 0 \<and> registered ex_guests 2 \<and>
   members ex_guests ''team:'' = [] \<and>
   outbox (handleMessage ex_guests 0 (ex_msg ''chat'' [] ''v0'' 4)) =
     Inr [ex_msg ''chat'' ''team:'' ''v0'' 4] \<and>
   inbox (Run ex_marshal (queued ex_guests (ex_msg ''chat'' ''team:'' ''v0'' 4))
            [(5, Broadcast_ev)]) 0 = Inr [''presence||v0'', ''presence||v2''] \<and>
   inbox (Run ex_marshal (queued ex_guests (ex_msg ''chat'' ''team:'' ''v0'' 4))
            [(5, Broadcast_ev)]) 2 = Inr [''presence||v2'']"
  by (simp add: ex_guests_eq registered_def members_def outbox_def inbox_def queued_def
        handleMessage_def handleChatMessage_def to_broadcast_def chan_send_def ex_msg_def
        Run_step_def broadcastMessage_def ex_marshal_def ex_guest_store_def new_client_def)

theorem teamless_routing_witness:
  "handleMessage ex_guests 0 (ex_msg ''chat'' [] ''v0'' 4) =
     Inr (queued ex_guests (ex_msg ''chat'' ''team:'' ''v0'' 4)) \<and>
   rooms ex_guests ''team:'' = None \<and>
   broadcastMessage ex_marshal ex_guests (ex_msg ''chat'' ''team:'' ''v0'' 4) = Inr ex_guests"
proof -
  let ?msg = "ex_msg ''chat'' [] ''v0'' 4"
  have t: "TeamID (store ex_guests 0) = []"
    by (simp add: ex_guests_eq)
  have k: "Type ?msg = ''chat'' \<and> Room ?msg = [] \<or> Type ?msg = ''task_update'' \<or>
           Type ?msg = ''typing''"
    by (simp add: ex_msg_def)
  have f: "\<not> closed (broadcast ex_guests)" "has_room (broadcast ex_guests)"
    by (simp_all add: ex_guests_eq has_room_def)
  have e: "?msg\<lparr>Room := ''team:''\<rparr> = ex_msg ''chat'' ''team:'' ''v0'' 4"
    by (simp add: ex_msg_def)
  have d: "ex_marshal (?msg\<lparr>Room := ''team:''\<rparr>) = Some ''chat|team:|v0''"
    by (simp add: ex_marshal_def ex_msg_def)
  note th0 = teamless_routing[where s=ex_guests and a=0 and msg="?msg" and marshal=ex_marshal,
      OF t k f]
  have 1: "handleMessage ex_guests 0 ?msg = Inr (queued ex_guests (?msg\<lparr>Room := ''team:''\<rparr>))"
    using th0 by blast
  have 2: "rooms ex_guests ''team:'' = None"
    using th0[where s'="NewHub ex_guest_store" and st=ex_guest_store and evs=ex_guest_events]
      ex_guests_run by blast
  have 3: "broadcastMessage ex_marshal ex_guests (?msg\<lparr>Room := ''team:''\<rparr>) = Inr ex_guests"
    using th0[where s'=ex_guests] 2 d by blast
  show ?thesis using 1 2 3 by (simp only: e simp_thms)
qed

text \<open>
  Claim C10. \<open>broadcastMessage\<close> and \<open>SendToUser\<close> leave the registry, the room
  index and every client's room set as they were. A broadcast to a room without an entry
  in the index changes no client and leaves the room without an entry. Both return when
  no channel they may send on is closed.
\<close>

theorem broadcast_keeps_index:
  "(\<forall>s'. broadcastMessage marshal s m = Inr s' \<or> SendToUser marshal s u m = Inr s' \<longrightarrow>
          clients s' = clients s \<and> rooms s' = rooms s \<and>
          (\<forall>a. Rooms (store s' a) = Rooms (store s a))) \<and>
   (Room m \<noteq> [] \<and> rooms s (Room m) = None \<longrightarrow>
      (\<exists>s'. broadcastMessage marshal s m = Inr s' \<and> store s' = store s \<and>
            rooms s' (Room m) = None)) \<and>
   ((\<forall>a\<in>snd ` set (clients s) \<union> set (members s (Room m)). \<not> closed (Send (store s a))) \<longrightarrow>
      (\<exists>s'. broadcastMessage marshal s m = Inr s') \<and>
      (\<exists>s'. SendToUser marshal s u m = Inr s'))"
proof (intro conjI allI impI)
  fix s'
  assume "broadcastMessage marshal s m = Inr s' \<or> SendToUser marshal s u m = Inr s'"
  then have oq: "only_queues s s'"
    using broadcastMessage_only_queues SendToUser_only_queues by blast
  then show "clients s' = clients s" "rooms s' = rooms s"
    by (simp_all add: only_queues_def)
  show "\<And>a. Rooms (store s' a) = Rooms (store s a)"
    using oq by (rule only_queues_Rooms)
next
  assume "Room m \<noteq> [] \<and> rooms s (Room m) = None"
  then show "\<exists>s'. broadcastMessage marshal s m = Inr s' \<and> store s' = store s \<and>
                  rooms s' (Room m) = None"
    by (cases "marshal m") (simp_all add: broadcastMessage_def logf_def)
next
  assume op: "\<forall>a\<in>snd ` set (clients s) \<union> set (members s (Room m)). \<not> closed (Send (store s a))"
  then have "\<forall>a\<in>set (recipients s m). \<not> closed (Send (store s a))"
    by (auto simp: recipients_def)
  then have del: "\<exists>s'. deliver d (recipients s m) s = Inr s'" for d
    by (rule deliver_total)
  show "\<exists>s'. broadcastMessage marshal s m = Inr s'"
  proof (cases "marshal m")
    case None
    then show ?thesis by (simp add: broadcastMessage_def)
  next
    case (Some d)
    then have "broadcastMessage marshal s m = deliver d (recipients s m) s"
      by (rule broadcastMessage_deliver)
    with del[of d] show ?thesis by simp
  qed
  from op have "\<forall>a\<in>set (filter (\<lambda>a. client.UserID (store s a) = u) (map snd (clients s))).
                  \<not> closed (Send (store s a))"
    by auto
  then have "\<exists>s'. deliver d (filter (\<lambda>a. client.UserID (store s a) = u) (map snd (clients s))) s
                 = Inr s'" for d
    by (rule deliver_total)
  then show "\<exists>s'. SendToUser marshal s u m = Inr s'"
    by (cases "marshal m") (simp_all add: SendToUser_def)
qed

theorem broadcast_keeps_index_witness:
  "rooms ex_hub ''channel:9'' = None \<and>
   (\<exists>s'. broadcastMessage ex_marshal ex_hub (ex_msg ''chat'' ''channel:9'' ''u2'' 9) = Inr s' \<and>
         clients s' = clients ex_hub \<and> rooms s' = rooms ex_hub \<and> store s' = store ex_hub) \<and>
   (\<exists>s'. SendToUser ex_marshal ex_hub ''u3'' (ex_msg ''chat'' ''channel:9'' ''u2'' 9) = Inr s' \<and>
         clients s' = clients ex_hub \<and> rooms s' = rooms ex_hub)"
proof -
  let ?m = "ex_msg ''chat'' ''channel:9'' ''u2'' 9"
  have r: "Room ?m \<noteq> [] \<and> rooms ex_hub (Room ?m) = None"
    by (simp add: ex_msg_def ex_hub_eq)
  have o: "\<forall>a\<in>snd ` set (clients ex_hub) \<union> set (members ex_hub (Room ?m)).
             \<not> closed (Send (store ex_hub a))"
    by (simp add: ex_hub_eq members_def ex_msg_def)
  note th = broadcast_keeps_index[of ex_marshal ex_hub ?m "''u3''"]
  from th r obtain s1 where
    1: "broadcastMessage ex_marshal ex_hub ?m = Inr s1" "store s1 = store ex_hub"
    by blast
  from th 1(1) have 2: "clients s1 = clients ex_hub" "rooms s1 = rooms ex_hub"
    by blast+
  from th o obtain s2 where 3: "SendToUser ex_marshal ex_hub ''u3'' ?m = Inr s2"
    by blast
  from th 3 have 4: "clients s2 = clients ex_hub" "rooms s2 = rooms ex_hub"
    by blast+
  have "rooms ex_hub ''channel:9'' = None"
    by (simp add: ex_hub_eq)
  with 1 2 3 4 show ?thesis by simp
qed

end
